theory Spec2Isabelle
  imports Main "HOL-Library.Word" "HOL-Library.Multiset"
begin

section \<open>Chain-state queries of \<^verbatim>\<open>src/rpc/blockchain.cpp\<close>\<close>

text \<open>
  The theory embeds four parts of \<^verbatim>\<open>src/rpc/blockchain.cpp\<close>: the range
  aggregator (\<^verbatim>\<open>validaterange\<close>, \<^verbatim>\<open>getblockindexstats\<close>, \<^verbatim>\<open>getfeeinfo\<close>), the
  digest of the unspent-output set (\<^verbatim>\<open>ApplyStats\<close>, \<^verbatim>\<open>GetUTXOStats\<close>), the chain
  tips (\<^verbatim>\<open>CompareBlocksByHeight\<close>, \<^verbatim>\<open>getchaintips\<close>) and the wait for a block
  height (\<^verbatim>\<open>RPCNotifyBlockChange\<close>, \<^verbatim>\<open>waitforblockheight\<close>).

  Conventions. A pointer \<^verbatim>\<open>CBlockIndex*\<close> is an address (a natural number, so that
  the comparison of two pointers is the comparison of the addresses), a null pointer is
  \<open>None\<close>, and the memory maps every address to the node stored there. A thrown
  exception is a value \<open>Inl\<close> of the type \<open>failure\<close>; what C++ leaves undefined (the
  dereference of a null pointer, an index past the end of a vector) is the failure
  \<open>Undefined\<close>. The C++ types \<^verbatim>\<open>int\<close>, \<^verbatim>\<open>int64_t\<close> and \<^verbatim>\<open>CAmount\<close> are modelled by
  \<open>int\<close>: signed overflow is undefined in C++ and no run with an overflow is described
  here. \<^verbatim>\<open>uint32_t\<close> is \<open>32 word\<close> and wraps.
\<close>

subsection \<open>Block index and active chain\<close>

type_synonym uint256 = "256 word"
type_synonym ptr = nat

text \<open>
  The fields of \<^verbatim>\<open>CBlockIndex\<close> that the file reads. The bit masks of \<^verbatim>\<open>nStatus\<close> and
  the method \<^verbatim>\<open>IsValid\<close> are declared in \<^verbatim>\<open>chain.h\<close>, which is not among the sources,
  so a node carries the three tests the file makes as fields:
  \<open>nStatus_FAILED\<close> is \<^verbatim>\<open>nStatus & BLOCK_FAILED_MASK\<close> (non-zero),
  \<open>IsValid_SCRIPTS\<close> is \<^verbatim>\<open>IsValid(BLOCK_VALID_SCRIPTS)\<close> and
  \<open>IsValid_TREE\<close> is \<^verbatim>\<open>IsValid(BLOCK_VALID_TREE)\<close>.
\<close>

record CBlockIndex =
  phashBlock :: uint256
  pprev :: "ptr option"
  nHeight :: int
  nChainTx :: nat
  nStatus_FAILED :: bool
  IsValid_SCRIPTS :: bool
  IsValid_TREE :: bool

type_synonym memory = "ptr \<Rightarrow> CBlockIndex"

text \<open>
  \<^verbatim>\<open>mapBlockIndex\<close> is the list of its entries, a hash and the pointer to the node, in
  the order in which the map is iterated; \<^verbatim>\<open>find\<close> is \<open>map_of\<close>.
\<close>

type_synonym BlockMap = "(uint256 \<times> ptr) list"

text \<open>
  Modelled from the spec: the class \<^verbatim>\<open>CChain\<close> (\<^verbatim>\<open>chain.h\<close>) is missing. The spec
  names it "an active chain sequence supporting contains(node), tip(), next(node),
  findFork(node)". The chain is the sequence \<open>vChain\<close> of node pointers indexed by
  height; a node is contained when the entry at the node's height is the node; the
  successor of a contained node is the entry one higher; the tip is the last entry.
\<close>

type_synonym CChain = "ptr list"

definition Height :: "CChain \<Rightarrow> int" where
  "Height c = int (length c) - 1"

definition chain_at :: "CChain \<Rightarrow> int \<Rightarrow> ptr option" where
  "chain_at c h = (if h < 0 \<or> int (length c) \<le> h then None else Some (c ! nat h))"

definition Tip :: "CChain \<Rightarrow> ptr option" where
  "Tip c = chain_at c (Height c)"

definition Contains :: "memory \<Rightarrow> CChain \<Rightarrow> ptr \<Rightarrow> bool" where
  "Contains mem c p = (chain_at c (nHeight (mem p)) = Some p)"

definition Next :: "memory \<Rightarrow> CChain \<Rightarrow> ptr \<Rightarrow> ptr option" where
  "Next mem c p = (if Contains mem c p then chain_at c (nHeight (mem p) + 1) else None)"

subsection \<open>Requests and failures\<close>

datatype UniValue = VNUM int | VBOOL bool | VSTR string

record JSONRPCRequest =
  fHelp :: bool
  params :: "UniValue list"

datatype RPCErrorCode = RPC_INVALID_PARAMETER | RPC_DATABASE_ERROR

text \<open>The messages of the exceptions; a \<^verbatim>\<open>%d\<close> of the format is the argument.\<close>

datatype message =
    Help
  | Not_an_integer
  | Not_a_boolean
  | Not_enough_parameters
  | Invalid_starting_block int
  | Invalid_block_range
  | Invalid_ending_block int
  | Invalid_block_height
  | Failed_to_read_block
  | Failed_to_read_tx
  | Invalid_start_height
  | Unable_to_read_value

text \<open>
  A failure is a thrown exception (\<^verbatim>\<open>std::runtime_error\<close>, \<^verbatim>\<open>JSONRPCError\<close>), a
  \<^verbatim>\<open>return error(...)\<close> (the message is logged and the function returns false), a failed
  \<^verbatim>\<open>assert\<close>, or undefined behaviour.
\<close>

datatype failure =
    runtime_error message
  | JSONRPCError RPCErrorCode message
  | error_false message
  | assert_failed
  | Undefined

definition get_int :: "UniValue \<Rightarrow> failure + int" where
  "get_int v = (case v of VNUM i \<Rightarrow> Inr i | _ \<Rightarrow> Inl (runtime_error Not_an_integer))"

definition get_bool :: "UniValue \<Rightarrow> failure + bool" where
  "get_bool v = (case v of VBOOL b \<Rightarrow> Inr b | _ \<Rightarrow> Inl (runtime_error Not_a_boolean))"

subsection \<open>validaterange\<close>

text \<open>
  \<^verbatim>\<open>validaterange(params, heightStart, heightEnd, minHeightStart = 1)\<close> writes its two
  results through references; the model returns them as a pair. \<open>nBestHeight\<close> is
  \<^verbatim>\<open>chainActive.Height()\<close>.
\<close>

definition validaterange :: "int \<Rightarrow> UniValue list \<Rightarrow> int \<Rightarrow> failure + (int \<times> int)" where
  "validaterange nBestHeight ps minHeightStart =
     (if length ps < 2 then Inl (JSONRPCError RPC_INVALID_PARAMETER Not_enough_parameters)
      else
        (case get_int (ps ! 0) of
           Inl e \<Rightarrow> Inl e
         | Inr heightStart \<Rightarrow>
             (if heightStart > nBestHeight
              then Inl (JSONRPCError RPC_INVALID_PARAMETER (Invalid_starting_block heightStart))
              else
                (case get_int (ps ! 1) of
                   Inl e \<Rightarrow> Inl e
                 | Inr rng \<Rightarrow>
                     (if rng < 1 then Inl (JSONRPCError RPC_INVALID_PARAMETER Invalid_block_range)
                      else
                        (let heightEnd = heightStart + rng - 1;
                             heightStart' =
                               (if heightStart < minHeightStart \<and> heightEnd \<ge> minHeightStart
                                then minHeightStart else heightStart)
                         in if heightEnd > nBestHeight
                            then Inl (JSONRPCError RPC_INVALID_PARAMETER (Invalid_ending_block heightEnd))
                            else Inr (heightStart', heightEnd)))))))"

subsection \<open>Transactions and blocks\<close>

text \<open>
  The transaction classes are declared outside the sources. A value carries what
  \<^verbatim>\<open>getblockindexstats\<close> reads of it: the results of the predicates it calls
  (\<^verbatim>\<open>IsCoinBase\<close>, \<^verbatim>\<open>IsCoinStake\<close>, \<^verbatim>\<open>HasZerocoinSpendInputs\<close>,
  \<^verbatim>\<open>HasZerocoinMintOutputs\<close>, \<^verbatim>\<open>IsZerocoinSpend\<close>, \<^verbatim>\<open>IsZerocoinPublicSpend\<close>,
  \<^verbatim>\<open>IsProofOfStake\<close>), the inputs, the outputs and the serialized size
  (\<^verbatim>\<open>GetSerializeSize\<close>).
\<close>

type_synonym CAmount = int
type_synonym CoinDenomination = nat

record COutPoint =
  hash :: uint256
  n_out :: "32 word"

record CTxIn =
  prevout :: COutPoint
  nSequence :: "32 word"
  IsZerocoinSpend :: bool
  IsZerocoinPublicSpend :: bool

record CTxOut =
  nValue :: CAmount
  scriptPubKey :: "8 word list"

record CTransaction =
  vin :: "CTxIn list"
  vout :: "CTxOut list"
  IsCoinBase :: bool
  IsCoinStake :: bool
  HasZerocoinSpendInputs :: bool
  HasZerocoinMintOutputs :: bool
  GetSerializeSize :: int

record CBlock =
  vtx :: "CTransaction list"
  IsProofOfStake :: bool

text \<open>
  \<^verbatim>\<open>CHashWriter\<close> (\<^verbatim>\<open>hash.h\<close>) is missing. The writer is modelled by what has been
  written to it: every \<^verbatim>\<open>ss << x\<close> appends one item, a 256-bit value, a \<^verbatim>\<open>VARINT\<close> or a
  script. The hash \<^verbatim>\<open>ss.GetHash()\<close> is a function of this sequence, taken as a
  parameter (the field \<open>GetHash\<close> below).
\<close>

datatype item = Ser_uint256 uint256 | Ser_VARINT int | Ser_script "8 word list"

type_synonym CHashWriter = "item list"

text \<open>
  What the file reads of the node: the memory of the block index, \<^verbatim>\<open>mapBlockIndex\<close>,
  the active chain, the hash function of the hash writer, the block store
  (\<^verbatim>\<open>ReadBlockFromDisk\<close>), the transaction lookup (\<^verbatim>\<open>GetTransaction\<close>) and the
  denominations of \<^verbatim>\<open>libzerocoin\<close>.
\<close>

record node =
  mem :: memory
  mapBlockIndex :: BlockMap
  chainActive :: CChain
  GetHash :: "CHashWriter \<Rightarrow> uint256"
  ReadBlockFromDisk :: "ptr \<Rightarrow> CBlock option"
  GetTransaction :: "uint256 \<Rightarrow> CTransaction option"
  zerocoinDenomList :: "CoinDenomination list"
  IntToZerocoinDenomination :: "32 word \<Rightarrow> CoinDenomination"
  ZerocoinDenominationToInt :: "CoinDenomination \<Rightarrow> int"

text \<open>Every read of the block store and of the transaction index is logged, in order.\<close>

datatype io = ReadBlock ptr | ReadTx uint256

text \<open>The counters of \<^verbatim>\<open>getblockindexstats\<close> that live across blocks.\<close>

record totals =
  nFees :: CAmount
  nFees_all :: CAmount
  nBytes :: int
  nTxCount :: int
  nTxCount_all :: int
  mapSpendCount :: "CoinDenomination \<Rightarrow> int"
  mapPublicSpendCount :: "CoinDenomination \<Rightarrow> int"

text \<open>
  The state of the loops over one block: the totals, the two sums \<^verbatim>\<open>nValueIn\<close> and
  \<^verbatim>\<open>nValueOut\<close>, which the source declares once per block, before the loop over the
  block's transactions, and the log.
\<close>

record scan =
  tot :: totals
  nValueIn :: CAmount
  nValueOut :: CAmount
  log :: "io list"

definition bump :: "('k \<Rightarrow> int) \<Rightarrow> 'k \<Rightarrow> ('k \<Rightarrow> int)" where
  "bump m k = m(k := m k + 1)"

text \<open>The loop over the inputs of one transaction.\<close>

fun inputs_loop :: "node \<Rightarrow> bool \<Rightarrow> CTxIn list \<Rightarrow> scan \<Rightarrow> failure \<times> io list + scan" where
  "inputs_loop nd fFeeOnly [] s = Inr s"
| "inputs_loop nd fFeeOnly (i # is) s =
     (if IsZerocoinSpend i then
        inputs_loop nd fFeeOnly is
          (if fFeeOnly then s
           else s\<lparr>tot := (tot s)\<lparr>mapSpendCount :=
                  bump (mapSpendCount (tot s)) (IntToZerocoinDenomination nd (nSequence i))\<rparr>\<rparr>)
      else if IsZerocoinPublicSpend i then
        inputs_loop nd fFeeOnly is
          (if fFeeOnly then s
           else s\<lparr>tot := (tot s)\<lparr>mapPublicSpendCount :=
                  bump (mapPublicSpendCount (tot s)) (IntToZerocoinDenomination nd (nSequence i))\<rparr>\<rparr>)
      else
        (let lg = log s @ [ReadTx (hash (prevout i))] in
         case GetTransaction nd (hash (prevout i)) of
           None \<Rightarrow> Inl (JSONRPCError RPC_DATABASE_ERROR Failed_to_read_tx, lg)
         | Some txPrev \<Rightarrow>
             if unat (n_out (prevout i)) < length (vout txPrev)
             then inputs_loop nd fFeeOnly is
                    (s\<lparr>nValueIn := nValueIn s + nValue (vout txPrev ! unat (n_out (prevout i))),
                       log := lg\<rparr>)
             else Inl (Undefined, lg)))"

text \<open>The loop over the outputs: \<^verbatim>\<open>nValueOut += tx.vout[j].nValue\<close>.\<close>

definition outputs_loop :: "CTxOut list \<Rightarrow> scan \<Rightarrow> scan" where
  "outputs_loop outs s = s\<lparr>nValueOut := fold (\<lambda>out v. v + nValue out) outs (nValueOut s)\<rparr>"

text \<open>The body of the loop over the transactions of a block, with its two \<^verbatim>\<open>continue\<close>.\<close>

definition update_sums :: "CTransaction \<Rightarrow> scan \<Rightarrow> scan" where
  "update_sums tx s =
     (let t1 = (tot s)\<lparr>nFees_all := nFees_all (tot s) + (nValueIn s - nValueOut s)\<rparr>;
          t2 = (if \<not> HasZerocoinMintOutputs tx
                then t1\<lparr>nFees := nFees t1 + (nValueIn s - nValueOut s),
                        nBytes := nBytes t1 + GetSerializeSize tx\<rparr>
                else t1)
      in s\<lparr>tot := t2\<rparr>)"

fun tx_loop :: "node \<Rightarrow> bool \<Rightarrow> CTransaction list \<Rightarrow> scan \<Rightarrow> failure \<times> io list + scan" where
  "tx_loop nd fFeeOnly [] s = Inr s"
| "tx_loop nd fFeeOnly (tx # txs) s =
     (if IsCoinBase tx \<or> (IsCoinStake tx \<and> \<not> HasZerocoinSpendInputs tx)
      then tx_loop nd fFeeOnly txs s
      else case inputs_loop nd fFeeOnly (vin tx) s of
        Inl e \<Rightarrow> Inl e
      | Inr s1 \<Rightarrow>
          if HasZerocoinSpendInputs tx then tx_loop nd fFeeOnly txs s1
          else tx_loop nd fFeeOnly txs (update_sums tx (outputs_loop (vout tx) s1)))"

text \<open>One pass of the \<^verbatim>\<open>while (true)\<close> loop, up to the test of the height.\<close>

definition block_step :: "node \<Rightarrow> bool \<Rightarrow> ptr \<Rightarrow> totals \<Rightarrow> io list \<Rightarrow> failure \<times> io list + totals \<times> io list" where
  "block_step nd fFeeOnly pindex t lg =
     (case ReadBlockFromDisk nd pindex of
        None \<Rightarrow> Inl (JSONRPCError RPC_DATABASE_ERROR Failed_to_read_block, lg @ [ReadBlock pindex])
      | Some block \<Rightarrow>
          (let ntx = int (length (vtx block));
               t1 = t\<lparr>nTxCount_all := nTxCount_all t + ntx\<rparr>;
               t2 = t1\<lparr>nTxCount := (if IsProofOfStake block then nTxCount t1 + ntx - 2
                                      else nTxCount t1 + ntx - 1)\<rparr>
           in case tx_loop nd fFeeOnly (vtx block)
                     \<lparr>tot = t2, nValueIn = 0, nValueOut = 0, log = lg @ [ReadBlock pindex]\<rparr> of
                Inl e \<Rightarrow> Inl e
              | Inr s \<Rightarrow> Inr (tot s, log s)))"

text \<open>
  The \<^verbatim>\<open>while (true)\<close> loop. It follows \<^verbatim>\<open>chainActive.Next\<close> until a node of height
  \<^verbatim>\<open>heightEnd\<close> or more is done; nothing in the function bounds the number of passes,
  so the loop is a partial function and \<open>None\<close> is the run that never ends. A null
  successor is dereferenced by the next read.
\<close>

partial_function (option) block_loop ::
  "node \<Rightarrow> bool \<Rightarrow> int \<Rightarrow> ptr \<Rightarrow> totals \<Rightarrow> io list \<Rightarrow> (failure \<times> io list + totals \<times> io list) option" where
  "block_loop nd fFeeOnly heightEnd pindex t lg =
     (case block_step nd fFeeOnly pindex t lg of
        Inl e \<Rightarrow> Some (Inl e)
      | Inr (t', lg') \<Rightarrow>
          if nHeight (mem nd pindex) < heightEnd
          then (case Next (mem nd) (chainActive nd) pindex of
                  None \<Rightarrow> Some (Inl (Undefined, lg'))
                | Some p \<Rightarrow> block_loop nd fFeeOnly heightEnd p t' lg')
          else Some (Inr (t', lg')))"

declare block_loop.simps [code]

text \<open>
  Modelled from the spec: \<^verbatim>\<open>CFeeRate\<close> is missing. The spec gives the rate as the
  fees per 1000 bytes "using integer-rate semantics (zero bytes, zero rate, not
  division fault)"; the division truncates towards zero, as C++ does.
\<close>

definition GetFeePerK :: "CAmount \<Rightarrow> int \<Rightarrow> CAmount" where
  "GetFeePerK nFeePaid nSize =
     (if nSize > 0
      then (if nFeePaid < 0 then - ((- nFeePaid * 1000) div nSize) else (nFeePaid * 1000) div nSize)
      else 0)"

text \<open>The object \<^verbatim>\<open>getblockindexstats\<close> returns, field by field.\<close>

record stats =
  Starting_block :: int
  Ending_block :: int
  txcount :: int
  txcount_all :: int
  spendcount :: "(int \<times> int) list option"
  publicspendcount :: "(int \<times> int) list option"
  txbytes :: int
  ttlfee :: CAmount
  ttlfee_all :: CAmount
  feeperkb :: CAmount

definition initial_totals :: totals where
  "initial_totals = \<lparr>nFees = 0, nFees_all = 0, nBytes = 0, nTxCount = 0, nTxCount_all = 0,
     mapSpendCount = (\<lambda>_. 0), mapPublicSpendCount = (\<lambda>_. 0)\<rparr>"

definition make_stats :: "node \<Rightarrow> bool \<Rightarrow> int \<Rightarrow> int \<Rightarrow> totals \<Rightarrow> stats" where
  "make_stats nd fFeeOnly heightStart heightEnd t =
     \<lparr>Starting_block = heightStart, Ending_block = heightEnd,
      txcount = nTxCount t, txcount_all = nTxCount_all t,
      spendcount = (if fFeeOnly then None
        else Some (map (\<lambda>d. (ZerocoinDenominationToInt nd d, mapSpendCount t d)) (zerocoinDenomList nd))),
      publicspendcount = (if fFeeOnly then None
        else Some (map (\<lambda>d. (ZerocoinDenominationToInt nd d, mapPublicSpendCount t d)) (zerocoinDenomList nd))),
      txbytes = nBytes t, ttlfee = nFees t, ttlfee_all = nFees_all t,
      feeperkb = GetFeePerK (nFees t) (nBytes t)\<rparr>"

text \<open>
  \<^verbatim>\<open>getblockindexstats\<close>. The result is the outcome (a failure or the object) and the
  log of the reads made; \<open>None\<close> is the run that never returns.
\<close>

definition getblockindexstats :: "node \<Rightarrow> JSONRPCRequest \<Rightarrow> ((failure + stats) \<times> io list) option" where
  "getblockindexstats nd request =
     (if fHelp request \<or> length (params request) < 2 \<or> length (params request) > 3
      then Some (Inl (runtime_error Help), [])
      else case validaterange (Height (chainActive nd)) (params request) 1 of
        Inl e \<Rightarrow> Some (Inl e, [])
      | Inr (heightStart, heightEnd) \<Rightarrow>
          (case (if length (params request) > 2 then get_bool (params request ! 2) else Inr False) of
             Inl e \<Rightarrow> Some (Inl e, [])
           | Inr fFeeOnly \<Rightarrow>
               (case chain_at (chainActive nd) heightStart of
                  None \<Rightarrow> Some (Inl (JSONRPCError RPC_INVALID_PARAMETER Invalid_block_height), [])
                | Some pindex \<Rightarrow>
                    (case block_loop nd fFeeOnly heightEnd pindex initial_totals [] of
                       None \<Rightarrow> None
                     | Some (Inl (e, lg)) \<Rightarrow> Some (Inl e, lg)
                     | Some (Inr (t, lg)) \<Rightarrow>
                         Some (Inr (make_stats nd fFeeOnly heightStart heightEnd t), lg)))))"

text \<open>\<^verbatim>\<open>getfeeinfo\<close> builds a new request and calls \<^verbatim>\<open>getblockindexstats\<close>.\<close>

definition getfeeinfo :: "node \<Rightarrow> JSONRPCRequest \<Rightarrow> ((failure + stats) \<times> io list) option" where
  "getfeeinfo nd request =
     (if fHelp request \<or> length (params request) \<noteq> 1 then Some (Inl (runtime_error Help), [])
      else case get_int (params request ! 0) of
        Inl e \<Rightarrow> Some (Inl e, [])
      | Inr nBlocks \<Rightarrow>
          (let nBestHeight = Height (chainActive nd);
               nStartHeight = nBestHeight - nBlocks
           in if nBlocks < 0 \<or> nStartHeight \<le> 0
              then Some (Inl (JSONRPCError RPC_INVALID_PARAMETER Invalid_start_height), [])
              else getblockindexstats nd
                     \<lparr>fHelp = False, params = [VNUM nStartHeight, VNUM nBlocks, VBOOL True]\<rparr>))"

text \<open>
  An input resolves when \<^verbatim>\<open>GetTransaction\<close> finds the transaction of its previous
  output and that transaction has the output.
\<close>

definition prevout_resolves :: "node \<Rightarrow> CTxIn \<Rightarrow> bool" where
  "prevout_resolves nd i =
     (case GetTransaction nd (hash (prevout i)) of
        None \<Rightarrow> False
      | Some txPrev \<Rightarrow> unat (n_out (prevout i)) < length (vout txPrev))"

definition same_counters :: "totals \<Rightarrow> totals \<Rightarrow> bool" where
  "same_counters a b =
     (nFees a = nFees b \<and> nFees_all a = nFees_all b \<and> nBytes a = nBytes b \<and>
      nTxCount a = nTxCount b \<and> nTxCount_all a = nTxCount_all b)"

subsection \<open>A small chain for the examples\<close>

text \<open>
  Three blocks on the active chain, at the addresses 0, 1 and 2. The block at height 1
  is a parameter; the transactions 10 and 11 each have two outputs, of 5 and of 3; a
  spending transaction has these two as inputs and one output of 7.
\<close>

definition ex_mem :: memory where
  "ex_mem p = \<lparr>phashBlock = of_nat p, pprev = (if p = 0 then None else Some (p - 1)),
     nHeight = int p, nChainTx = p + 1, nStatus_FAILED = False,
     IsValid_SCRIPTS = True, IsValid_TREE = True\<rparr>"

definition ex_coinbase :: CTransaction where
  "ex_coinbase =
     \<lparr>vin = [\<lparr>prevout = \<lparr>hash = 0, n_out = - 1\<rparr>, nSequence = - 1,
              IsZerocoinSpend = False, IsZerocoinPublicSpend = False\<rparr>],
      vout = [\<lparr>nValue = 50, scriptPubKey = []\<rparr>], IsCoinBase = True, IsCoinStake = False,
      HasZerocoinSpendInputs = False, HasZerocoinMintOutputs = False, GetSerializeSize = 100\<rparr>"

definition ex_coinstake :: CTransaction where
  "ex_coinstake =
     \<lparr>vin = [\<lparr>prevout = \<lparr>hash = 10, n_out = 0\<rparr>, nSequence = - 1,
              IsZerocoinSpend = False, IsZerocoinPublicSpend = False\<rparr>],
      vout = [\<lparr>nValue = 0, scriptPubKey = []\<rparr>, \<lparr>nValue = 6, scriptPubKey = []\<rparr>],
      IsCoinBase = False, IsCoinStake = True,
      HasZerocoinSpendInputs = False, HasZerocoinMintOutputs = False, GetSerializeSize = 150\<rparr>"

definition ex_funding :: CTransaction where
  "ex_funding =
     \<lparr>vin = [], vout = [\<lparr>nValue = 5, scriptPubKey = []\<rparr>, \<lparr>nValue = 3, scriptPubKey = []\<rparr>],
      IsCoinBase = False, IsCoinStake = False,
      HasZerocoinSpendInputs = False, HasZerocoinMintOutputs = False, GetSerializeSize = 100\<rparr>"

definition ex_spend :: "uint256 \<Rightarrow> CTransaction" where
  "ex_spend h =
     \<lparr>vin = [\<lparr>prevout = \<lparr>hash = h, n_out = 0\<rparr>, nSequence = - 1,
              IsZerocoinSpend = False, IsZerocoinPublicSpend = False\<rparr>,
             \<lparr>prevout = \<lparr>hash = h, n_out = 1\<rparr>, nSequence = - 1,
              IsZerocoinSpend = False, IsZerocoinPublicSpend = False\<rparr>],
      vout = [\<lparr>nValue = 7, scriptPubKey = []\<rparr>], IsCoinBase = False, IsCoinStake = False,
      HasZerocoinSpendInputs = False, HasZerocoinMintOutputs = False, GetSerializeSize = 200\<rparr>"

text \<open>A small hash function for the examples, in place of the double SHA-256.\<close>

fun ex_hash :: "CHashWriter \<Rightarrow> uint256" where
  "ex_hash [] = 0"
| "ex_hash (Ser_uint256 w # ss) = w + 31 * ex_hash ss"
| "ex_hash (Ser_VARINT v # ss) = of_int v + 31 * ex_hash ss"
| "ex_hash (Ser_script bs # ss) = of_nat (length bs) + 31 * ex_hash ss"

definition ex_node :: "CBlock \<Rightarrow> node" where
  "ex_node b =
     \<lparr>mem = ex_mem, mapBlockIndex = [(0, 0), (1, 1), (2, 2)], chainActive = [0, 1, 2],
      GetHash = ex_hash,
      ReadBlockFromDisk =
        (\<lambda>p. if p = 1 then Some b else Some \<lparr>vtx = [ex_coinbase], IsProofOfStake = False\<rparr>),
      GetTransaction = (\<lambda>h. if h = 10 \<or> h = 11 then Some ex_funding else None),
      zerocoinDenomList = [1, 5], IntToZerocoinDenomination = unat,
      ZerocoinDenominationToInt = int\<rparr>"

subsection \<open>The digest of the unspent outputs\<close>

text \<open>
  Modelled from the spec: the class \<^verbatim>\<open>Coin\<close> (\<^verbatim>\<open>coins.h\<close>) is missing. The spec's
  UTXORecord has "height: integer, isCoinbase: bool, isCoinstake: bool, value: signed
  64-bit amount, scriptBytes: opaque byte sequence"; the source reads them as
  \<^verbatim>\<open>coin.nHeight\<close>, \<^verbatim>\<open>coin.fCoinBase\<close>, \<^verbatim>\<open>coin.fCoinStake\<close> and \<^verbatim>\<open>coin.out\<close>. The
  field \<open>n_out\<close> of an outpoint is \<^verbatim>\<open>COutPoint::n\<close>.
\<close>

record Coin =
  out :: CTxOut
  fCoinBase :: bool
  fCoinStake :: bool
  coin_nHeight :: int

record CCoinsStats =
  stats_nHeight :: int
  hashBlock :: uint256
  nTransactions :: "64 word"
  nTransactionOutputs :: "64 word"
  hashSerialized :: uint256
  nDiskSize :: "64 word"
  nTotalAmount :: CAmount

text \<open>
  \<^verbatim>\<open>std::map<uint32_t, Coin>\<close> is the list of its entries in the order of iteration,
  ascending in the key. \<open>map_assign k v m\<close> is \<^verbatim>\<open>m[k] = v\<close>: it inserts the entry at
  its place, or overwrites the value of a key that is there.
\<close>

type_synonym outputs_map = "(32 word \<times> Coin) list"

fun map_assign :: "32 word \<Rightarrow> Coin \<Rightarrow> outputs_map \<Rightarrow> outputs_map" where
  "map_assign k v [] = [(k, v)]"
| "map_assign k v ((k', v') # m) =
     (if k < k' then (k, v) # (k', v') # m
      else if k = k' then (k, v) # m
      else (k', v') # map_assign k v m)"

text \<open>\<^verbatim>\<open>ApplyStats\<close>: the loop over the outputs, then the function.\<close>

fun outputs_loop_hash :: "outputs_map \<Rightarrow> CCoinsStats \<times> CHashWriter \<Rightarrow> CCoinsStats \<times> CHashWriter" where
  "outputs_loop_hash [] (stats, ss) = (stats, ss)"
| "outputs_loop_hash (output # rest) (stats, ss) =
     (let ss1 = ss @ [Ser_VARINT (uint (fst output + 1))];
          ss2 = ss1 @ [Ser_script (scriptPubKey (out (snd output)))];
          ss3 = ss2 @ [Ser_VARINT (nValue (out (snd output)))];
          stats1 = stats\<lparr>nTransactionOutputs := nTransactionOutputs stats + 1\<rparr>;
          stats2 = stats1\<lparr>nTotalAmount := nTotalAmount stats1 + nValue (out (snd output))\<rparr>
      in outputs_loop_hash rest (stats2, ss3))"

definition ApplyStats ::
  "CCoinsStats \<Rightarrow> CHashWriter \<Rightarrow> uint256 \<Rightarrow> outputs_map \<Rightarrow> failure + CCoinsStats \<times> CHashWriter" where
  "ApplyStats stats ss h outputs =
     (case outputs of
        [] \<Rightarrow> Inl assert_failed
      | first # _ \<Rightarrow>
          (let ss1 = ss @ [Ser_uint256 h];
               coin = snd first;
               ss2 = ss1 @ [Ser_VARINT (coin_nHeight coin * 4 + (if fCoinBase coin then 2 else 0)
                                         + (if fCoinStake coin then 1 else 0))];
               stats1 = stats\<lparr>nTransactions := nTransactions stats + 1\<rparr>;
               (stats2, ss3) = outputs_loop_hash outputs (stats1, ss2)
           in Inr (stats2, ss3 @ [Ser_VARINT 0])))"


text \<open>The local variables of \<^verbatim>\<open>GetUTXOStats\<close> that the loop changes.\<close>

record digest_state =
  d_stats :: CCoinsStats
  d_ss :: CHashWriter
  prevkey :: uint256
  d_outputs :: outputs_map




text \<open>The constructor \<^verbatim>\<open>CCoinsStats()\<close>, and values for the examples.\<close>

definition new_CCoinsStats :: CCoinsStats where
  "new_CCoinsStats = \<lparr>stats_nHeight = 0, hashBlock = 0, nTransactions = 0, nTransactionOutputs = 0,
     hashSerialized = 0, nDiskSize = 0, nTotalAmount = 0\<rparr>"

definition mk_coin :: "int \<Rightarrow> bool \<Rightarrow> bool \<Rightarrow> int \<Rightarrow> 8 word list \<Rightarrow> Coin" where
  "mk_coin h cb cs v scr = \<lparr>out = \<lparr>nValue = v, scriptPubKey = scr\<rparr>, fCoinBase = cb, fCoinStake = cs, coin_nHeight = h\<rparr>"



text \<open>
  The items one flush writes, in closed form, and the loop of \<^verbatim>\<open>GetUTXOStats\<close> over
  readable entries as a fold; both are proved equal to the functions above
  (\<open>ApplyStats_closed\<close>, \<open>cursor_loop_readable\<close>).
\<close>

definition output_items :: "32 word \<times> Coin \<Rightarrow> item list" where
  "output_items output =
     [Ser_VARINT (uint (fst output + 1)), Ser_script (scriptPubKey (out (snd output))),
      Ser_VARINT (nValue (out (snd output)))]"

definition header_code :: "Coin \<Rightarrow> int" where
  "header_code coin = coin_nHeight coin * 4 + (if fCoinBase coin then 2 else 0)
                        + (if fCoinStake coin then 1 else 0)"

definition flush_items :: "uint256 \<Rightarrow> outputs_map \<Rightarrow> item list" where
  "flush_items h m =
     Ser_uint256 h # Ser_VARINT (header_code (snd (hd m))) # concat (map output_items m) @ [Ser_VARINT 0]"

definition flush_stats :: "CCoinsStats \<Rightarrow> outputs_map \<Rightarrow> CCoinsStats" where
  "flush_stats stats m = fst (outputs_loop_hash m (stats\<lparr>nTransactions := nTransactions stats + 1\<rparr>, []))"

definition flush :: "digest_state \<Rightarrow> digest_state" where
  "flush st = st\<lparr>d_stats := flush_stats (d_stats st) (d_outputs st),
                d_ss := d_ss st @ flush_items (prevkey st) (d_outputs st), d_outputs := []\<rparr>"

definition step :: "COutPoint \<times> Coin \<Rightarrow> digest_state \<Rightarrow> digest_state" where
  "step r st =
     (let st1 = (if d_outputs st \<noteq> [] \<and> hash (fst r) \<noteq> prevkey st then flush st else st)
      in st1\<lparr>prevkey := hash (fst r),
             d_outputs := map_assign (n_out (fst r)) (snd r) (d_outputs st1)\<rparr>)"

definition assign_record :: "COutPoint \<times> Coin \<Rightarrow> outputs_map \<Rightarrow> outputs_map" where
  "assign_record r m = map_assign (n_out (fst r)) (snd r) m"









subsection \<open>Chain tips\<close>

text \<open>
  Modelled from the spec: \<^verbatim>\<open>CChain::FindFork\<close> (\<^verbatim>\<open>chain.h\<close>) is missing. The spec has the
  fork point as "the highest-height ancestor of tip that also lies on the active chain (a
  simple ancestor walk, or equivalent active-chain membership test)": the walk follows
  \<^verbatim>\<open>pprev\<close> from the node until a node that the chain contains, and returns null when
  the links end first. Nothing bounds the walk on a memory whose links form a cycle, so
  the function is partial: \<open>None\<close> is the walk that never ends, \<open>Some None\<close> is null.
\<close>

partial_function (option) FindFork :: "memory \<Rightarrow> CChain \<Rightarrow> ptr option \<Rightarrow> ptr option option" where
  "FindFork M c pindex =
     (case pindex of
        None \<Rightarrow> Some None
      | Some p \<Rightarrow> if Contains M c p then Some (Some p) else FindFork M c (pprev (M p)))"

declare FindFork.simps [code]

text \<open>
  \<^verbatim>\<open>CompareBlocksByHeight\<close>: the greater height first, then the smaller address.
\<close>

definition CompareBlocksByHeight :: "memory \<Rightarrow> ptr \<Rightarrow> ptr \<Rightarrow> bool" where
  "CompareBlocksByHeight M a b =
     (if nHeight (M a) \<noteq> nHeight (M b) then nHeight (M a) > nHeight (M b) else a < b)"

text \<open>
  \<^verbatim>\<open>std::set<const CBlockIndex*, CompareBlocksByHeight>\<close> is the list of its elements in
  the order of iteration. \<open>set_insert\<close> puts an element at its place unless an equivalent
  one (neither before the other) is there; \<open>set_erase\<close> removes the equivalent element.
\<close>

fun set_insert :: "('a \<Rightarrow> 'a \<Rightarrow> bool) \<Rightarrow> 'a \<Rightarrow> 'a list \<Rightarrow> 'a list" where
  "set_insert lt x [] = [x]"
| "set_insert lt x (y # ys) =
     (if lt y x then y # set_insert lt x ys
      else if lt x y then x # y # ys
      else y # ys)"

fun set_erase :: "('a \<Rightarrow> 'a \<Rightarrow> bool) \<Rightarrow> 'a \<Rightarrow> 'a list \<Rightarrow> 'a list" where
  "set_erase lt x [] = []"
| "set_erase lt x (y # ys) =
     (if lt y x then y # set_erase lt x ys
      else if lt x y then y # ys
      else ys)"

text \<open>One object of the result: \<^verbatim>\<open>height\<close>, \<^verbatim>\<open>hash\<close>, \<^verbatim>\<open>branchlen\<close>, \<^verbatim>\<open>status\<close>.\<close>

record ChainTip =
  tip_height :: int
  tip_hash :: uint256
  branchlen :: int
  status :: string

text \<open>The object built for a node \<^verbatim>\<open>block\<close> with the fork point \<^verbatim>\<open>fork\<close>.\<close>

definition tip_entry :: "memory \<Rightarrow> CChain \<Rightarrow> ptr \<Rightarrow> ptr \<Rightarrow> ChainTip" where
  "tip_entry M c block fork =
     \<lparr>tip_height = nHeight (M block), tip_hash = phashBlock (M block),
      branchlen = nHeight (M block) - nHeight (M fork),
      status = (if Contains M c block then ''active''
                else if nStatus_FAILED (M block) then ''invalid''
                else if nChainTx (M block) = 0 then ''headers-only''
                else if IsValid_SCRIPTS (M block) then ''valid-fork''
                else if IsValid_TREE (M block) then ''valid-headers''
                else ''unknown'')\<rparr>"

text \<open>
  The loop that builds the result. A null fork point is dereferenced; a walk that does
  not end makes the call not return.
\<close>

fun tips_loop :: "memory \<Rightarrow> CChain \<Rightarrow> ptr list \<Rightarrow> (failure + ChainTip list) option" where
  "tips_loop M c [] = Some (Inr [])"
| "tips_loop M c (block # rest) =
     (case FindFork M c (Some block) of
        None \<Rightarrow> None
      | Some None \<Rightarrow> Some (Inl Undefined)
      | Some (Some fork) \<Rightarrow>
          (case tips_loop M c rest of
             None \<Rightarrow> None
           | Some (Inl e) \<Rightarrow> Some (Inl e)
           | Some (Inr res) \<Rightarrow>
               Some (Inr (tip_entry M c block fork # res))))"

text \<open>
  \<open>setTips\<close> is the set after the two loops over \<^verbatim>\<open>mapBlockIndex\<close> and the insertion of
  the active tip. With an empty active chain \<^verbatim>\<open>chainActive.Tip()\<close> is null and is
  dereferenced.
\<close>

definition setTips :: "node \<Rightarrow> ptr \<Rightarrow> ptr list" where
  "setTips nd tip =
     (let s0 = fold (\<lambda>item. set_insert (CompareBlocksByHeight (mem nd)) (snd item))
                    (mapBlockIndex nd) [];
          s1 = fold (\<lambda>item s. case pprev (mem nd (snd item)) of
                                 None \<Rightarrow> s
                               | Some p \<Rightarrow> set_erase (CompareBlocksByHeight (mem nd)) p s)
                    (mapBlockIndex nd) s0
      in set_insert (CompareBlocksByHeight (mem nd)) tip s1)"

definition getchaintips :: "node \<Rightarrow> JSONRPCRequest \<Rightarrow> (failure + ChainTip list) option" where
  "getchaintips nd request =
     (if fHelp request \<or> length (params request) \<noteq> 0 then Some (Inl (runtime_error Help))
      else case Tip (chainActive nd) of
        None \<Rightarrow> Some (Inl Undefined)
      | Some tip \<Rightarrow> tips_loop (mem nd) (chainActive nd) (setTips nd tip))"

text \<open>
  A forest for the examples: the chain 0, 1, 2 of the small chain above; node 3, a child
  of the active tip 2, marked failed; node 4, a fork from 1, fully validated; node 6, a
  child of the failed node 3, with the failed bit of a descendant of a failed node.
\<close>

definition ex_index :: memory where
  "ex_index p =
     (if p = 3 then \<lparr>phashBlock = 3, pprev = Some 2, nHeight = 3, nChainTx = 4, nStatus_FAILED = True,
                     IsValid_SCRIPTS = False, IsValid_TREE = False\<rparr>
      else if p = 4 then \<lparr>phashBlock = 4, pprev = Some 1, nHeight = 2, nChainTx = 3, nStatus_FAILED = False,
                     IsValid_SCRIPTS = True, IsValid_TREE = True\<rparr>
      else if p = 6 then \<lparr>phashBlock = 6, pprev = Some 3, nHeight = 4, nChainTx = 5, nStatus_FAILED = True,
                     IsValid_SCRIPTS = True, IsValid_TREE = True\<rparr>
      else ex_mem p)"

definition ex_blocks :: "ptr list \<Rightarrow> BlockMap" where
  "ex_blocks ps = map (\<lambda>p. (of_nat p, p)) ps"

definition ex_forest :: "ptr list \<Rightarrow> node" where
  "ex_forest ps = (ex_node \<lparr>vtx = [ex_coinbase], IsProofOfStake = False\<rparr>)
     \<lparr>mem := ex_index, mapBlockIndex := ex_blocks ps\<rparr>"

text \<open>
  The ancestors of a node, itself included, and what the walk of \<open>FindFork\<close> finds: an
  ancestor on the active chain below which every ancestor on the active chain lies.
\<close>

inductive ancestor :: "memory \<Rightarrow> ptr \<Rightarrow> ptr \<Rightarrow> bool" for M :: memory where
  self: "ancestor M p p"
| parent: "pprev (M p) = Some q \<Longrightarrow> ancestor M q a \<Longrightarrow> ancestor M p a"

definition fork_point :: "memory \<Rightarrow> CChain \<Rightarrow> ptr \<Rightarrow> ptr \<Rightarrow> bool" where
  "fork_point M c p f =
     (ancestor M p f \<and> Contains M c f \<and>
      (\<forall>a. ancestor M p a \<longrightarrow> Contains M c a \<longrightarrow> ancestor M f a))"

text \<open>
  The block index as validation keeps it (\<^verbatim>\<open>validation.cpp\<close> is not among the
  sources): the parent of a node of \<^verbatim>\<open>mapBlockIndex\<close> is a node of \<^verbatim>\<open>mapBlockIndex\<close>, of
  a smaller height; a node whose parent has a failed bit has a failed bit
  (\<^verbatim>\<open>BLOCK_FAILED_MASK\<close> is \<^verbatim>\<open>BLOCK_FAILED_VALID | BLOCK_FAILED_CHILD\<close>, the second being
  the mark of a descendant of a failed block); the active tip is a node of
  \<^verbatim>\<open>mapBlockIndex\<close>. \<^verbatim>\<open>getchaintips\<close> relies on it where it reads the status word of the
  tip alone under the comment "This block or one of its ancestors is invalid".
\<close>

definition consistent_index :: "node \<Rightarrow> bool" where
  "consistent_index nd =
     ((\<forall>x \<in> snd ` set (mapBlockIndex nd). \<forall>y. pprev (mem nd x) = Some y \<longrightarrow>
          y \<in> snd ` set (mapBlockIndex nd) \<and>
          nHeight (mem nd y) < nHeight (mem nd x) \<and>
          (nStatus_FAILED (mem nd y) \<longrightarrow> nStatus_FAILED (mem nd x))) \<and>
      (\<forall>tip. Tip (chainActive nd) = Some tip \<longrightarrow> tip \<in> snd ` set (mapBlockIndex nd)))"

subsection \<open>Waiting for a block height\<close>

text \<open>
  \<^verbatim>\<open>CUpdatedBlock\<close> has the fields \<^verbatim>\<open>hash\<close> and \<^verbatim>\<open>height\<close>. What the waiting thread
  shares with the others is \<^verbatim>\<open>latestblock\<close>, guarded by \<^verbatim>\<open>cs_blockchange\<close>, and the flag
  that \<^verbatim>\<open>IsRPCRunning()\<close> reads.
\<close>

record CUpdatedBlock =
  block_hash :: uint256
  block_height :: int

record shared =
  latestblock :: CUpdatedBlock
  IsRPCRunning :: bool

text \<open>
  \<^verbatim>\<open>RPCNotifyBlockChange(fInitialDownload, pindex)\<close> stores the hash and the height of a
  non-null \<^verbatim>\<open>pindex\<close>; it notifies the waiting threads in either case.
\<close>

definition RPCNotifyBlockChange :: "memory \<Rightarrow> bool \<Rightarrow> ptr option \<Rightarrow> shared \<Rightarrow> shared" where
  "RPCNotifyBlockChange M fInitialDownload pindex s =
     (case pindex of
        None \<Rightarrow> s
      | Some p \<Rightarrow> s\<lparr>latestblock := \<lparr>block_hash = phashBlock (M p), block_height = nHeight (M p)\<rparr>\<rparr>)"

text \<open>
  The waiting thread holds the mutex except while it is blocked in the condition
  variable, so the other threads act on the shared state only then. An episode is one
  such blocking: the actions of the others while the thread is blocked, and why the wait
  ended, a wake-up (a notification or a spurious one) or the deadline. The list of
  episodes is the future the thread meets; when it is used up and the thread blocks
  again, the call never returns (\<open>None\<close>).
\<close>

datatype action = Notify bool "ptr option" | StopRPC

datatype cv_status = no_timeout | timeout

record episode =
  actions :: "action list"
  wake :: cv_status

fun act :: "memory \<Rightarrow> action \<Rightarrow> shared \<Rightarrow> shared" where
  "act M (Notify fInitialDownload pindex) s = RPCNotifyBlockChange M fInitialDownload pindex s"
| "act M StopRPC s = s\<lparr>IsRPCRunning := False\<rparr>"

text \<open>
  Modelled from the C++ standard: \<^verbatim>\<open>wait(lock, pred)\<close> is
  \<^verbatim>\<open>while (!pred()) wait(lock);\<close> and \<^verbatim>\<open>wait_for(lock, d, pred)\<close> is
  \<^verbatim>\<open>while (!pred()) if (wait_until(lock, t) == cv_status::timeout) return pred(); return true;\<close>.
  Each function returns the shared state at its return and the episodes still to come.
\<close>

fun cv_wait :: "memory \<Rightarrow> (shared \<Rightarrow> bool) \<Rightarrow> episode list \<Rightarrow> shared \<Rightarrow> (shared \<times> episode list) option" where
  "cv_wait M pred [] s = (if pred s then Some (s, []) else None)"
| "cv_wait M pred (e # es) s =
     (if pred s then Some (s, e # es) else cv_wait M pred es (fold (act M) (actions e) s))"

fun cv_wait_for :: "memory \<Rightarrow> (shared \<Rightarrow> bool) \<Rightarrow> episode list \<Rightarrow> shared \<Rightarrow> (shared \<times> episode list) option" where
  "cv_wait_for M pred [] s = (if pred s then Some (s, []) else None)"
| "cv_wait_for M pred (e # es) s =
     (if pred s then Some (s, e # es)
      else if wake e = timeout then Some (fold (act M) (actions e) s, es)
      else cv_wait_for M pred es (fold (act M) (actions e) s))"

text \<open>
  \<^verbatim>\<open>waitforblockheight\<close>: the result is the snapshot \<^verbatim>\<open>block = latestblock\<close> taken after the
  wait, under the mutex.
\<close>

definition waitforblockheight ::
  "memory \<Rightarrow> JSONRPCRequest \<Rightarrow> episode list \<Rightarrow> shared \<Rightarrow> ((failure + CUpdatedBlock) \<times> episode list) option" where
  "waitforblockheight M request es s =
     (if fHelp request \<or> length (params request) < 1 \<or> length (params request) > 2
      then Some (Inl (runtime_error Help), es)
      else case get_int (params request ! 0) of
        Inl e \<Rightarrow> Some (Inl e, es)
      | Inr height \<Rightarrow>
          (case (if length (params request) > 1 then get_int (params request ! 1) else Inr 0) of
             Inl e \<Rightarrow> Some (Inl e, es)
           | Inr tmo \<Rightarrow>
               (let pred = (\<lambda>s. block_height (latestblock s) \<ge> height \<or> \<not> IsRPCRunning s)
                in case (if tmo \<noteq> 0 then cv_wait_for M pred es s else cv_wait M pred es s) of
                     None \<Rightarrow> None
                   | Some (s', es') \<Rightarrow> Some (Inr (latestblock s'), es'))))"

text \<open>An action that leaves \<^verbatim>\<open>latestblock\<close> as it is.\<close>

definition keeps_tip :: "memory \<Rightarrow> CUpdatedBlock \<Rightarrow> action \<Rightarrow> bool" where
  "keeps_tip M b a =
     (case a of
        StopRPC \<Rightarrow> True
      | Notify _ None \<Rightarrow> True
      | Notify _ (Some p) \<Rightarrow> phashBlock (M p) = block_hash b \<and> nHeight (M p) = block_height b)"

definition ex_shared :: shared where
  "ex_shared = \<lparr>latestblock = \<lparr>block_hash = 2, block_height = 2\<rparr>, IsRPCRunning = True\<rparr>"


section \<open>Properties\<close>

subsection \<open>The range aggregator\<close>

text \<open>
  C10. For a block count \<open>nBlocks \<ge> 0\<close> with \<open>nBestHeight - nBlocks > 0\<close>,
  \<^verbatim>\<open>getfeeinfo\<close> returns what \<^verbatim>\<open>getblockindexstats\<close> returns on the request
  (start height \<open>nBestHeight - nBlocks\<close>, range \<open>nBlocks\<close>, \<open>fFeeOnly = true\<close>): the same
  outcome and the same reads.
\<close>

theorem getfeeinfo_is_getblockindexstats:
  assumes "0 \<le> nBlocks" and "Height (chainActive nd) - nBlocks > 0"
  shows "getfeeinfo nd \<lparr>fHelp = False, params = [VNUM nBlocks]\<rparr> =
         getblockindexstats nd
           \<lparr>fHelp = False,
            params = [VNUM (Height (chainActive nd) - nBlocks), VNUM nBlocks, VBOOL True]\<rparr>"
  using assms by (simp add: getfeeinfo_def get_int_def Let_def)

theorem getfeeinfo_is_getblockindexstats_witness:
  "getfeeinfo (ex_node \<lparr>vtx = [ex_coinbase, ex_spend 10], IsProofOfStake = False\<rparr>)
      \<lparr>fHelp = False, params = [VNUM 1]\<rparr> =
   Some (Inr \<lparr>Starting_block = 1, Ending_block = 1, txcount = 1, txcount_all = 2,
               spendcount = None, publicspendcount = None, txbytes = 200,
               ttlfee = 1, ttlfee_all = 1, feeperkb = 5\<rparr>,
         [ReadBlock 1, ReadTx 10, ReadTx 10])"
proof -
  let ?nd = "ex_node \<lparr>vtx = [ex_coinbase, ex_spend 10], IsProofOfStake = False\<rparr>"
  have h: "Height (chainActive ?nd) = 2"
    by (simp add: ex_node_def Height_def)
  have "getfeeinfo ?nd \<lparr>fHelp = False, params = [VNUM 1]\<rparr> =
        getblockindexstats ?nd \<lparr>fHelp = False, params = [VNUM 1, VNUM 1, VBOOL True]\<rparr>"
    using getfeeinfo_is_getblockindexstats [of 1 ?nd] by (simp add: h)
  also have "\<dots> = Some (Inr \<lparr>Starting_block = 1, Ending_block = 1, txcount = 1, txcount_all = 2,
               spendcount = None, publicspendcount = None, txbytes = 200,
               ttlfee = 1, ttlfee_all = 1, feeperkb = 5\<rparr>,
         [ReadBlock 1, ReadTx 10, ReadTx 10])"
    by code_simp
  finally show ?thesis .
qed

text \<open>
  C4. A request with a range below 1 (then \<open>heightEnd = heightStart + range - 1\<close> is
  below \<open>heightStart\<close>) fails in \<^verbatim>\<open>validaterange\<close> with \<^verbatim>\<open>RPC_INVALID_PARAMETER\<close>, and
  the log of reads is empty: no block and no transaction is read. The message is that
  of the range, unless the start height is itself above the best height, which
  \<^verbatim>\<open>validaterange\<close> tests first and reports with the same error code.
\<close>

theorem nonpositive_range_rejected_before_io:
  assumes "\<not> fHelp request" and "params request = VNUM start # VNUM rng # rest"
    and "length rest \<le> 1" and "rng < 1"
  shows "getblockindexstats nd request =
    Some (Inl (JSONRPCError RPC_INVALID_PARAMETER
            (if start > Height (chainActive nd) then Invalid_starting_block start
             else Invalid_block_range)), [])"
  using assms by (simp add: getblockindexstats_def validaterange_def get_int_def)

theorem nonpositive_range_rejected_before_io_witness:
  "getblockindexstats (ex_node \<lparr>vtx = [ex_coinbase], IsProofOfStake = False\<rparr>)
      \<lparr>fHelp = False, params = [VNUM 1, VNUM 0]\<rparr> =
   Some (Inl (JSONRPCError RPC_INVALID_PARAMETER Invalid_block_range), [])"
  using nonpositive_range_rejected_before_io
    [of "\<lparr>fHelp = False, params = [VNUM 1, VNUM 0]\<rparr>" 1 0 "[]"
        "ex_node \<lparr>vtx = [ex_coinbase], IsProofOfStake = False\<rparr>"]
  by (simp add: ex_node_def Height_def)

text \<open>
  C9, as stated: whenever \<open>range \<ge> 1\<close>, \<open>start \<le> nBestHeight\<close>,
  \<open>start < minHeightStart\<close> and \<open>start + range - 1 \<ge> minHeightStart\<close>, the start is
  raised to \<open>minHeightStart\<close> and the request is not rejected. It fails when the end of
  the range is above the best height: with best height 10, start 0 and range 20 the
  four conditions hold and \<^verbatim>\<open>validaterange\<close> throws for the ending block 19.
\<close>

theorem validaterange_raises_start_counterexample:
  "(1::int) \<le> 20 \<and> (0::int) \<le> 10 \<and> (0::int) < 1 \<and> (1::int) \<le> 0 + 20 - 1 \<and>
   validaterange 10 [VNUM 0, VNUM 20] 1 =
     Inl (JSONRPCError RPC_INVALID_PARAMETER (Invalid_ending_block 19))"
  by (simp add: validaterange_def get_int_def Let_def)

text \<open>
  C9, amended: under the four conditions and \<open>start + range - 1 \<le> nBestHeight\<close>,
  \<^verbatim>\<open>validaterange\<close> returns the start \<open>minHeightStart\<close> and the end
  \<open>start + range - 1\<close>, which are fewer than \<open>range\<close> blocks.
\<close>

theorem validaterange_raises_start:
  assumes "1 \<le> rng" and "start \<le> nBestHeight" and "start < minHeightStart"
    and "minHeightStart \<le> start + rng - 1" and "start + rng - 1 \<le> nBestHeight"
  shows "validaterange nBestHeight (VNUM start # VNUM rng # rest) minHeightStart =
           Inr (minHeightStart, start + rng - 1)
         \<and> (start + rng - 1) - minHeightStart + 1 < rng"
  using assms by (simp add: validaterange_def get_int_def Let_def)

theorem validaterange_raises_start_witness:
  "validaterange 10 [VNUM 0, VNUM 2] 1 = Inr (1, 1) \<and> (1::int) - 1 + 1 < 2"
  using validaterange_raises_start [of 2 0 10 1 "[]"] by simp

text \<open>The inputs of a transaction leave the five counters as they are.\<close>

lemma inputs_loop_resolves:
  assumes "\<forall>i \<in> set ins. IsZerocoinSpend i \<or> IsZerocoinPublicSpend i \<or> prevout_resolves nd i"
  shows "\<exists>s'. inputs_loop nd fFeeOnly ins s = Inr s' \<and> same_counters (tot s') (tot s)"
  using assms
proof (induction ins arbitrary: s)
  case Nil
  show ?case by (simp add: same_counters_def)
next
  case (Cons i ins)
  have rest: "\<And>s0. \<exists>s'. inputs_loop nd fFeeOnly ins s0 = Inr s' \<and> same_counters (tot s') (tot s0)"
    using Cons by simp
  show ?case
  proof (cases "IsZerocoinSpend i")
    case True
    then show ?thesis
      using rest [of "if fFeeOnly then s else s\<lparr>tot := (tot s)\<lparr>mapSpendCount :=
                  bump (mapSpendCount (tot s)) (IntToZerocoinDenomination nd (nSequence i))\<rparr>\<rparr>"]
      by (auto simp: same_counters_def)
  next
    case zs: False
    show ?thesis
    proof (cases "IsZerocoinPublicSpend i")
      case True
      then show ?thesis
        using zs rest [of "if fFeeOnly then s else s\<lparr>tot := (tot s)\<lparr>mapPublicSpendCount :=
                  bump (mapPublicSpendCount (tot s)) (IntToZerocoinDenomination nd (nSequence i))\<rparr>\<rparr>"]
        by (auto simp: same_counters_def)
    next
      case False
      with zs Cons.prems have "prevout_resolves nd i" by simp
      then obtain txPrev where tp: "GetTransaction nd (hash (prevout i)) = Some txPrev"
        and ix: "unat (n_out (prevout i)) < length (vout txPrev)"
        by (auto simp: prevout_resolves_def split: option.splits)
      show ?thesis
        using zs False tp ix
          rest [of "s\<lparr>nValueIn := nValueIn s + nValue (vout txPrev ! unat (n_out (prevout i))),
                       log := log s @ [ReadTx (hash (prevout i))]\<rparr>"]
        by (auto simp: same_counters_def Let_def)
    qed
  qed
qed

text \<open>
  C7. A request for one block (range 1) at a height \<open>h\<close> of the active chain, where
  the block is proof of stake and holds a coinbase and a coinstake and nothing else,
  returns \<open>txcount = 0\<close>, \<open>txcount_all = 2\<close> and fees 0 (both \<open>ttlfee\<close> and
  \<open>ttlfee_all\<close>). The block is readable and the node at height \<open>h\<close> has height \<open>h\<close>; a
  coinstake with zerocoin spends has its other inputs looked up, and they resolve.
\<close>

theorem single_pos_block_stats:
  assumes "\<not> fHelp request" and "params request = VNUM h # VNUM 1 # rest"
    and "rest = [] \<or> (\<exists>b. rest = [VBOOL b])"
    and "chain_at (chainActive nd) h = Some pindex" and "nHeight (mem nd pindex) = h"
    and "ReadBlockFromDisk nd pindex = Some block" and "IsProofOfStake block"
    and "vtx block = [cb, cs]" and "IsCoinBase cb" and "IsCoinStake cs"
    and "\<forall>i \<in> set (vin cs). IsZerocoinSpend i \<or> IsZerocoinPublicSpend i \<or> prevout_resolves nd i"
  shows "\<exists>st lg. getblockindexstats nd request = Some (Inr st, lg) \<and>
           Starting_block st = h \<and> Ending_block st = h \<and>
           txcount st = 0 \<and> txcount_all st = 2 \<and> ttlfee st = 0 \<and> ttlfee_all st = 0"
proof -
  from assms(4) have hb: "0 \<le> h" "h \<le> Height (chainActive nd)"
    by (auto simp: chain_at_def Height_def split: if_splits)
  have vr: "validaterange (Height (chainActive nd)) (params request) 1 = Inr (h, h)"
    using hb assms(2) by (simp add: validaterange_def get_int_def Let_def)
  have "\<exists>b. (if length (params request) > 2 then get_bool (params request ! 2) else Inr False) = Inr b"
    using assms(2,3) by (auto simp: get_bool_def)
  then obtain fFeeOnly where fo:
    "(if length (params request) > 2 then get_bool (params request ! 2) else Inr False) = Inr fFeeOnly"
    by blast
  let ?lg = "[ReadBlock pindex]"
  let ?t2 = "initial_totals\<lparr>nTxCount_all := 2, nTxCount := 0\<rparr>"
  let ?s0 = "\<lparr>tot = ?t2, nValueIn = 0, nValueOut = 0, log = ?lg\<rparr>"
  have "\<exists>s. tx_loop nd fFeeOnly [cb, cs] ?s0 = Inr s \<and> same_counters (tot s) ?t2"
  proof (cases "HasZerocoinSpendInputs cs")
    case False
    then show ?thesis using assms(9,10) by (simp add: same_counters_def)
  next
    case True
    obtain s1 where "inputs_loop nd fFeeOnly (vin cs) ?s0 = Inr s1" "same_counters (tot s1) (tot ?s0)"
      using inputs_loop_resolves [OF assms(11)] by blast
    then show ?thesis using True assms(9) by (auto simp: same_counters_def)
  qed
  then obtain s where s: "tx_loop nd fFeeOnly [cb, cs] ?s0 = Inr s" "same_counters (tot s) ?t2"
    by blast
  have bs: "block_step nd fFeeOnly pindex initial_totals [] = Inr (tot s, log s)"
    using assms(6,7,8) s(1) by (simp add: block_step_def initial_totals_def)
  have bl: "block_loop nd fFeeOnly h pindex initial_totals [] = Some (Inr (tot s, log s))"
    by (subst block_loop.simps) (simp add: bs assms(5))
  have "getblockindexstats nd request =
          Some (Inr (make_stats nd fFeeOnly h h (tot s)), log s)"
    using assms(1,2,3,4) vr fo bl by (auto simp: getblockindexstats_def)
  moreover have "nTxCount (tot s) = 0" "nTxCount_all (tot s) = 2"
    "nFees (tot s) = 0" "nFees_all (tot s) = 0"
    using s(2) by (simp_all add: same_counters_def initial_totals_def)
  ultimately show ?thesis by (simp add: make_stats_def)
qed

theorem single_pos_block_stats_witness:
  "\<exists>st lg. getblockindexstats (ex_node \<lparr>vtx = [ex_coinbase, ex_coinstake], IsProofOfStake = True\<rparr>)
               \<lparr>fHelp = False, params = [VNUM 1, VNUM 1]\<rparr> = Some (Inr st, lg) \<and>
           Starting_block st = 1 \<and> Ending_block st = 1 \<and>
           txcount st = 0 \<and> txcount_all st = 2 \<and> ttlfee st = 0 \<and> ttlfee_all st = 0"
  using single_pos_block_stats
    [of "\<lparr>fHelp = False, params = [VNUM 1, VNUM 1]\<rparr>" 1 "[]"
        "ex_node \<lparr>vtx = [ex_coinbase, ex_coinstake], IsProofOfStake = True\<rparr>" 1
        "\<lparr>vtx = [ex_coinbase, ex_coinstake], IsProofOfStake = True\<rparr>" ex_coinbase ex_coinstake]
  by (simp add: ex_node_def ex_mem_def chain_at_def ex_coinbase_def ex_coinstake_def
        prevout_resolves_def ex_funding_def)

text \<open>
  C2. The claim gives every ordinary transaction its own fee, inputs minus outputs,
  whatever else is in the block. The source declares \<^verbatim>\<open>nValueIn\<close> and \<^verbatim>\<open>nValueOut\<close>
  once per block and never resets them between transactions, so the second ordinary
  transaction of a block adds the fees of the first again. A block with a coinbase and
  two transactions of fee 1 each (inputs 5 and 3, output 7) reports the fee 3, not 2.
\<close>

theorem two_ordinary_transactions_fee:
  "getblockindexstats
      (ex_node \<lparr>vtx = [ex_coinbase, ex_spend 10, ex_spend 11], IsProofOfStake = False\<rparr>)
      \<lparr>fHelp = False, params = [VNUM 1, VNUM 1]\<rparr> =
   Some (Inr \<lparr>Starting_block = 1, Ending_block = 1, txcount = 2, txcount_all = 3,
               spendcount = Some [(1, 0), (5, 0)],
               publicspendcount = Some [(1, 0), (5, 0)], txbytes = 400,
               ttlfee = 3, ttlfee_all = 3, feeperkb = 7\<rparr>,
         [ReadBlock 1, ReadTx 10, ReadTx 10, ReadTx 11, ReadTx 11])"
  by code_simp

subsection \<open>The digest of the unspent outputs\<close>

lemma outputs_loop_hash_ss:
  "outputs_loop_hash m (stats, ss) =
     (fst (outputs_loop_hash m (stats, [])), ss @ concat (map output_items m))"
proof (induction m arbitrary: stats ss)
  case Nil
  show ?case by simp
next
  case (Cons e m)
  show ?case
    by (simp add: Let_def output_items_def Cons.IH [of _ "ss @ _"] Cons.IH [of _ "[_, _, _]"])
qed

lemma ApplyStats_closed:
  "m \<noteq> [] \<Longrightarrow> ApplyStats stats ss h m = Inr (flush_stats stats m, ss @ flush_items h m)"
  by (cases m)
     (simp_all add: ApplyStats_def Let_def flush_stats_def flush_items_def header_code_def
        outputs_loop_hash_ss [of _ _ "_ @ _"] del: outputs_loop_hash.simps)

lemma keys_map_assign: "fst ` set (map_assign k v m) = insert k (fst ` set m)"
proof (induction m)
  case Nil
  show ?case by simp
next
  case (Cons e m)
  obtain k' v' where e: "e = (k', v')" by (cases e)
  show ?case
    unfolding e using Cons.IH by (cases "k < k'"; cases "k = k'") (simp_all add: insert_commute)
qed

lemma sorted_map_assign:
  "sorted_wrt (<) (map fst m) \<Longrightarrow> sorted_wrt (<) (map fst (map_assign k v m))"
proof (induction m)
  case Nil
  show ?case by simp
next
  case (Cons e m)
  then show ?case
    using keys_map_assign [of k v m] by (cases e) (auto simp: not_less)
qed

lemma map_of_map_assign: "map_of (map_assign k v m) = (map_of m)(k \<mapsto> v)"
  by (induction m) (auto simp: fun_upd_twist)









lemma sorted_fold_assign:
  "sorted_wrt (<) (map fst m) \<Longrightarrow> sorted_wrt (<) (map fst (fold assign_record g m))"
  by (induction g arbitrary: m) (simp_all add: assign_record_def sorted_map_assign)

lemma map_of_fold_assign:
  "map_of (fold assign_record g m) = map_of m ++ map_of (rev (map (\<lambda>r. (n_out (fst r), snd r)) g))"
  by (induction g arbitrary: m) (simp_all add: assign_record_def map_of_map_assign)


lemma COutPoint_eq: "(a :: COutPoint) = b \<longleftrightarrow> hash a = hash b \<and> n_out a = n_out b"
  by (cases a, cases b) simp

lemma distinct_n_out:
  assumes "distinct (map fst g)" and "\<forall>r \<in> set g. hash (fst r) = t"
  shows "distinct (map (\<lambda>r. n_out (fst r)) (g :: (COutPoint \<times> Coin) list))"
proof -
  have "inj_on (\<lambda>r. n_out (fst r)) (set g)"
  proof (rule inj_onI)
    fix x y
    assume xy: "x \<in> set g" "y \<in> set g" "n_out (fst x) = n_out (fst y)"
    then have "fst x = fst y"
      using assms(2) by (simp add: COutPoint_eq)
    then show "x = y"
      using assms(1) xy(1,2) by (simp add: distinct_map inj_on_def)
  qed
  moreover have "distinct g"
    using assms(1) by (simp add: distinct_map)
  ultimately show ?thesis by (simp add: distinct_map)
qed



















text \<open>
  C1. Take a non-empty group of records with distinct outpoints that share the
  transaction id \<open>txid\<close>, and let \<open>outputs\<close> be the map that \<^verbatim>\<open>GetUTXOStats\<close> builds of
  them (\<^verbatim>\<open>outputs[key.n] = coin\<close> for each). Then \<^verbatim>\<open>ApplyStats\<close> appends to the hash
  writer, in this order: the transaction id; one header value
  \<open>nHeight * 4 + (fCoinBase ? 2 : 0) + (fCoinStake ? 1 : 0)\<close> of the first entry of the
  map; for each entry in turn the index plus one (in \<^verbatim>\<open>uint32_t\<close>), the script and the
  amount; and the value 0. The entries of the map are the records of the group, in
  ascending order of the output index.
\<close>

theorem ApplyStats_order:
  assumes "recs \<noteq> []" and "distinct (map fst recs)" and "\<forall>r \<in> set recs. hash (fst r) = txid"
    and "outputs = fold assign_record recs []"
  shows "(\<exists>stats'. ApplyStats stats ss txid outputs =
            Inr (stats',
                 ss @ [Ser_uint256 txid,
                       Ser_VARINT (coin_nHeight (snd (hd outputs)) * 4
                                   + (if fCoinBase (snd (hd outputs)) then 2 else 0)
                                   + (if fCoinStake (snd (hd outputs)) then 1 else 0))]
                    @ concat (map (\<lambda>(i, coin). [Ser_VARINT (uint (i + 1)),
                                                 Ser_script (scriptPubKey (out coin)),
                                                 Ser_VARINT (nValue (out coin))]) outputs)
                    @ [Ser_VARINT 0]))
         \<and> sorted_wrt (<) (map fst outputs)
         \<and> set outputs = (\<lambda>r. (n_out (fst r), snd r)) ` set recs"
proof -
  let ?f = "\<lambda>r :: COutPoint \<times> Coin. (n_out (fst r), snd r)"
  have srt: "sorted_wrt (<) (map fst outputs)"
    unfolding assms(4) by (rule sorted_fold_assign) simp
  have mo: "map_of outputs = map_of (rev (map ?f recs))"
    unfolding assms(4) by (simp add: map_of_fold_assign)
  have "distinct (map fst (rev (map ?f recs)))"
    using distinct_n_out [OF assms(2,3)] by (simp add: rev_map [symmetric] comp_def)
  moreover have "distinct (map fst outputs)"
    using srt by (simp add: strict_sorted_iff)
  ultimately have st: "set outputs = set (rev (map ?f recs))"
    using mo by (simp only: map_of_inject_set)
  have ne: "outputs \<noteq> []"
    using st assms(1) by auto
  have items: "map (\<lambda>(i, coin). [Ser_VARINT (uint (i + 1)), Ser_script (scriptPubKey (out coin)),
                 Ser_VARINT (nValue (out coin))]) outputs = map output_items outputs"
    by (simp add: output_items_def case_prod_unfold)
  have "ApplyStats stats ss txid outputs = Inr (flush_stats stats outputs, ss @ flush_items txid outputs)"
    using ne by (rule ApplyStats_closed)
  then show ?thesis
    using srt st by (simp add: items flush_items_def header_code_def)
qed

theorem ApplyStats_order_witness:
  "ApplyStats new_CCoinsStats [Ser_uint256 2] 7
     (fold assign_record
        [(\<lparr>hash = 7, n_out = 1\<rparr>, mk_coin 5 True False 10 [1, 2]),
         (\<lparr>hash = 7, n_out = 0\<rparr>, mk_coin 5 True False 20 [3])] []) =
   Inr (new_CCoinsStats\<lparr>nTransactions := 1, nTransactionOutputs := 2, nTotalAmount := 30\<rparr>,
        [Ser_uint256 2, Ser_uint256 7, Ser_VARINT 22,
         Ser_VARINT 1, Ser_script [3], Ser_VARINT 20,
         Ser_VARINT 2, Ser_script [1, 2], Ser_VARINT 10, Ser_VARINT 0])"
  using ApplyStats_order
    [of "[(\<lparr>hash = 7, n_out = 1\<rparr>, mk_coin 5 True False 10 [1, 2]),
          (\<lparr>hash = 7, n_out = 0\<rparr>, mk_coin 5 True False 20 [3])]" 7 _ new_CCoinsStats "[Ser_uint256 2]"]
  by (simp add: assign_record_def mk_coin_def ApplyStats_def new_CCoinsStats_def Let_def)






subsection \<open>Chain tips\<close>

lemma cmp_irrefl: "\<not> CompareBlocksByHeight M a a"
  by (simp add: CompareBlocksByHeight_def)

lemma cmp_trans:
  "CompareBlocksByHeight M a b \<Longrightarrow> CompareBlocksByHeight M b c \<Longrightarrow> CompareBlocksByHeight M a c"
  by (auto simp: CompareBlocksByHeight_def split: if_splits)

lemma cmp_total:
  "\<not> CompareBlocksByHeight M a b \<Longrightarrow> \<not> CompareBlocksByHeight M b a \<Longrightarrow> a = b"
  by (auto simp: CompareBlocksByHeight_def split: if_splits)

lemma set_set_insert:
  "set (set_insert (CompareBlocksByHeight M) x xs) = insert x (set xs)"
  by (induction xs) (auto dest: cmp_total)

lemma set_set_erase: "set (set_erase lt x xs) \<subseteq> set xs"
  by (induction xs) auto

lemma sorted_set_insert:
  assumes "sorted_wrt (CompareBlocksByHeight M) xs"
  shows "sorted_wrt (CompareBlocksByHeight M) (set_insert (CompareBlocksByHeight M) x xs)"
  using assms
proof (induction xs)
  case Nil
  show ?case by simp
next
  case (Cons y ys)
  then show ?case
    by (auto simp: set_set_insert intro: cmp_trans)
qed

lemma sorted_set_erase:
  "sorted_wrt lt xs \<Longrightarrow> sorted_wrt lt (set_erase lt x xs)"
proof (induction xs)
  case Nil
  show ?case by simp
next
  case (Cons y ys)
  then show ?case
    using set_set_erase [of lt x ys] by auto
qed

lemma sorted_cmp_distinct:
  "sorted_wrt (CompareBlocksByHeight M) xs \<Longrightarrow> distinct xs"
  by (induction xs) (auto simp: cmp_irrefl)

lemma sorted_fold_insert:
  "sorted_wrt (CompareBlocksByHeight M) s \<Longrightarrow>
   sorted_wrt (CompareBlocksByHeight M)
     (fold (\<lambda>item. set_insert (CompareBlocksByHeight M) (snd item)) items s)"
  by (induction items arbitrary: s) (simp_all add: sorted_set_insert)

lemma sorted_fold_erase:
  "sorted_wrt (CompareBlocksByHeight M) s \<Longrightarrow>
   sorted_wrt (CompareBlocksByHeight M)
     (fold (\<lambda>item s. case pprev (M (snd item)) of None \<Rightarrow> s
                       | Some p \<Rightarrow> set_erase (CompareBlocksByHeight M) p s) items s)"
  by (induction items arbitrary: s) (simp_all add: sorted_set_erase split: option.splits)

lemma sorted_setTips: "sorted_wrt (CompareBlocksByHeight (mem nd)) (setTips nd tip)"
  by (simp add: setTips_def Let_def sorted_set_insert sorted_fold_erase sorted_fold_insert)

lemma tip_in_setTips: "tip \<in> set (setTips nd tip)"
  by (simp add: setTips_def Let_def set_set_insert)

lemma count_setTips: "count_list (setTips nd tip) tip = 1"
proof -
  have "distinct (setTips nd tip)"
    using sorted_setTips by (rule sorted_cmp_distinct)
  then have "count (mset (setTips nd tip)) tip = 1"
    using tip_in_setTips [of tip nd] by (simp add: distinct_count_atmost_1)
  then show ?thesis by (simp add: count_mset)
qed

lemmas FindFork_induct = FindFork.raw_induct [rotated -1, consumes 1, case_names step]

lemma FindFork_fork_point:
  assumes "FindFork M c pindex = Some r"
  shows "(pindex = None \<longrightarrow> r = None) \<and>
         (\<forall>p f. pindex = Some p \<longrightarrow> r = Some f \<longrightarrow> fork_point M c p f)"
  using assms
proof (induction rule: FindFork_induct)
  case (step FF M c pindex r)
  show ?case
  proof (intro conjI allI impI)
    assume "pindex = None"
    then show "r = None" using step(2) by simp
  next
    fix p f assume p: "pindex = Some p" and r: "r = Some f"
    show "fork_point M c p f"
    proof (cases "Contains M c p")
      case True
      then have "f = p" using step(2) p r by simp
      then show ?thesis using True by (auto simp: fork_point_def intro: ancestor.self)
    next
      case False
      then have ff: "FF M c (pprev (M p)) = Some (Some f)"
        using step(2) p r by simp
      show ?thesis
      proof (cases "pprev (M p)")
        case None
        have "FF M c None = Some (Some f)" using ff None by simp
        from step(1) [OF this] show ?thesis by simp
      next
        case (Some q)
        have ih: "fork_point M c q f"
          using step(1) [OF ff] Some by simp
        have "\<forall>a. ancestor M p a \<longrightarrow> Contains M c a \<longrightarrow> ancestor M f a"
        proof (intro allI impI)
          fix a assume a: "ancestor M p a" "Contains M c a"
          from a(1) show "ancestor M f a"
          proof (cases rule: ancestor.cases)
            case self
            then show ?thesis using a(2) False by simp
          next
            case (parent q')
            then show ?thesis using Some ih a(2) by (simp add: fork_point_def)
          qed
        qed
        then show ?thesis
          using ih Some by (auto simp: fork_point_def intro: ancestor.parent)
      qed
    qed
  qed
qed

lemma ancestor_consistent:
  assumes "consistent_index nd" and "ancestor (mem nd) p a" and "p \<in> snd ` set (mapBlockIndex nd)"
  shows "a \<in> snd ` set (mapBlockIndex nd) \<and>
         nHeight (mem nd a) \<le> nHeight (mem nd p) \<and>
         (nHeight (mem nd a) = nHeight (mem nd p) \<longrightarrow> a = p) \<and>
         (nStatus_FAILED (mem nd a) \<longrightarrow> nStatus_FAILED (mem nd p))"
  using assms(2,3)
proof (induction rule: ancestor.induct)
  case (self p)
  then show ?case by simp
next
  case (parent p q a)
  have q: "q \<in> snd ` set (mapBlockIndex nd)" "nHeight (mem nd q) < nHeight (mem nd p)"
      "nStatus_FAILED (mem nd q) \<longrightarrow> nStatus_FAILED (mem nd p)"
    using assms(1) parent.hyps(1) parent.prems unfolding consistent_index_def by blast+
  from parent.IH [OF q(1)] q(2,3) show ?case by auto
qed

lemma set_fold_insert:
  "set (fold (\<lambda>item. set_insert (CompareBlocksByHeight M) (snd item)) items s) =
     snd ` set items \<union> set s"
  by (induction items arbitrary: s) (auto simp: set_set_insert)

lemma set_fold_erase:
  "set (fold (\<lambda>item s. case pprev (M (snd item)) of None \<Rightarrow> s
                         | Some p \<Rightarrow> set_erase lt p s) items s) \<subseteq> set s"
proof (induction items arbitrary: s)
  case Nil
  show ?case by simp
next
  case (Cons item items)
  show ?case
  proof (cases "pprev (M (snd item))")
    case None
    then show ?thesis using Cons.IH [of s] by simp
  next
    case (Some p)
    then show ?thesis
      using Cons.IH [of "set_erase lt p s"] set_set_erase [of lt p s] by auto
  qed
qed

lemma setTips_subset: "set (setTips nd tip) \<subseteq> insert tip (snd ` set (mapBlockIndex nd))"
proof -
  let ?M = "mem nd"
  let ?s0 = "fold (\<lambda>item. set_insert (CompareBlocksByHeight ?M) (snd item)) (mapBlockIndex nd) []"
  have "set (fold (\<lambda>item s. case pprev (?M (snd item)) of None \<Rightarrow> s
                         | Some p \<Rightarrow> set_erase (CompareBlocksByHeight ?M) p s) (mapBlockIndex nd) ?s0)
          \<subseteq> set ?s0"
    by (rule set_fold_erase)
  then show ?thesis
    by (auto simp: setTips_def Let_def set_set_insert set_fold_insert)
qed

lemma tips_loop_entries:
  "tips_loop M c ps = Some (Inr res) \<Longrightarrow>
     list_all2 (\<lambda>block d. \<exists>fork. FindFork M c (Some block) = Some (Some fork) \<and>
                              d = tip_entry M c block fork) ps res"
proof (induction ps arbitrary: res)
  case Nil
  then show ?case by simp
next
  case (Cons block rest)
  then show ?case
    by (auto split: option.splits sum.splits)
qed

text \<open>
  C3. On a block index as validation keeps it, every object \<open>d\<close> that \<^verbatim>\<open>getchaintips\<close>
  returns describes a node \<open>block\<close> of the set of tips: its branch length is the height
  of the node minus the height of the fork point, the highest ancestor of the node
  (itself included) on the active chain, every other such ancestor being lower; and
  its status is the first case that holds of: on the active chain, active; some
  ancestor of the node, itself included, has a failed bit, invalid; no transactions
  counted up to the node, headers-only; valid up to the scripts, valid-fork; valid up
  to the tree, valid-headers; else unknown.
\<close>

theorem chaintips_entries:
  assumes "getchaintips nd request = Some (Inr res)" and "d \<in> set res"
    and "consistent_index nd"
  shows "\<exists>tip block fork.
           Tip (chainActive nd) = Some tip \<and> block \<in> set (setTips nd tip) \<and>
           ancestor (mem nd) block fork \<and> Contains (mem nd) (chainActive nd) fork \<and>
           (\<forall>a. ancestor (mem nd) block a \<and> Contains (mem nd) (chainActive nd) a \<and> a \<noteq> fork \<longrightarrow>
                nHeight (mem nd a) < nHeight (mem nd fork)) \<and>
           tip_height d = nHeight (mem nd block) \<and>
           tip_hash d = phashBlock (mem nd block) \<and>
           branchlen d = nHeight (mem nd block) - nHeight (mem nd fork) \<and>
           status d =
             (if Contains (mem nd) (chainActive nd) block then ''active''
              else if \<exists>a. ancestor (mem nd) block a \<and> nStatus_FAILED (mem nd a) then ''invalid''
              else if nChainTx (mem nd block) = 0 then ''headers-only''
              else if IsValid_SCRIPTS (mem nd block) then ''valid-fork''
              else if IsValid_TREE (mem nd block) then ''valid-headers''
              else ''unknown'')"
proof -
  let ?M = "mem nd" and ?c = "chainActive nd"
  let ?B = "snd ` set (mapBlockIndex nd)"
  obtain tip where tip: "Tip ?c = Some tip"
    and tl: "tips_loop ?M ?c (setTips nd tip) = Some (Inr res)"
    using assms(1) by (auto simp: getchaintips_def split: if_splits option.splits)
  have la: "list_all2 (\<lambda>block d. \<exists>fork. FindFork ?M ?c (Some block) = Some (Some fork) \<and>
                              d = tip_entry ?M ?c block fork) (setTips nd tip) res"
    using tl by (rule tips_loop_entries)
  from assms(2) obtain i where i: "i < length res" "res ! i = d"
    by (auto simp: in_set_conv_nth)
  have len: "length (setTips nd tip) = length res"
    using la by (rule list_all2_lengthD)
  define block where "block = setTips nd tip ! i"
  have "\<exists>fork. FindFork ?M ?c (Some block) = Some (Some fork) \<and> res ! i = tip_entry ?M ?c block fork"
    using la i(1) len unfolding block_def by (simp add: list_all2_conv_all_nth)
  then obtain fork where ff: "FindFork ?M ?c (Some block) = Some (Some fork)"
    and d: "d = tip_entry ?M ?c block fork"
    using i(2) by auto
  have b: "block \<in> set (setTips nd tip)"
    unfolding block_def using i(1) len by simp
  have "tip \<in> ?B"
    using assms(3) tip by (simp add: consistent_index_def)
  then have bB: "block \<in> ?B"
    using b setTips_subset [of nd tip] by auto
  have fp: "fork_point ?M ?c block fork"
    using FindFork_fork_point [OF ff] by simp
  then have af: "ancestor ?M block fork" and cf: "Contains ?M ?c fork"
    by (simp_all add: fork_point_def)
  have fB: "fork \<in> ?B"
    using ancestor_consistent [OF assms(3) af bB] by simp
  have hi: "\<forall>a. ancestor ?M block a \<and> Contains ?M ?c a \<and> a \<noteq> fork \<longrightarrow>
              nHeight (?M a) < nHeight (?M fork)"
  proof (intro allI impI)
    fix a assume a: "ancestor ?M block a \<and> Contains ?M ?c a \<and> a \<noteq> fork"
    then have "ancestor ?M fork a" using fp by (simp add: fork_point_def)
    from ancestor_consistent [OF assms(3) this fB] a
    show "nHeight (?M a) < nHeight (?M fork)" by force
  qed
  have fl: "(\<exists>a. ancestor ?M block a \<and> nStatus_FAILED (?M a)) \<longleftrightarrow> nStatus_FAILED (?M block)"
  proof
    assume "\<exists>a. ancestor ?M block a \<and> nStatus_FAILED (?M a)"
    then obtain a where "ancestor ?M block a" "nStatus_FAILED (?M a)" by blast
    then show "nStatus_FAILED (?M block)"
      using ancestor_consistent [OF assms(3) _ bB, of a] by simp
  next
    assume "nStatus_FAILED (?M block)"
    then show "\<exists>a. ancestor ?M block a \<and> nStatus_FAILED (?M a)"
      using ancestor.self [of ?M block] by blast
  qed
  have st: "status d =
             (if Contains ?M ?c block then ''active''
              else if \<exists>a. ancestor ?M block a \<and> nStatus_FAILED (?M a) then ''invalid''
              else if nChainTx (?M block) = 0 then ''headers-only''
              else if IsValid_SCRIPTS (?M block) then ''valid-fork''
              else if IsValid_TREE (?M block) then ''valid-headers''
              else ''unknown'')"
    unfolding fl by (simp add: d tip_entry_def)
  show ?thesis
  proof (rule exI [of _ tip], rule exI [of _ block], rule exI [of _ fork], intro conjI)
    show "Tip ?c = Some tip" by (rule tip)
    show "block \<in> set (setTips nd tip)" by (rule b)
    show "ancestor ?M block fork" by (rule af)
    show "Contains ?M ?c fork" by (rule cf)
    show "\<forall>a. ancestor ?M block a \<and> Contains ?M ?c a \<and> a \<noteq> fork \<longrightarrow>
              nHeight (?M a) < nHeight (?M fork)" by (rule hi)
    show "tip_height d = nHeight (?M block)" by (simp add: d tip_entry_def)
    show "tip_hash d = phashBlock (?M block)" by (simp add: d tip_entry_def)
    show "branchlen d = nHeight (?M block) - nHeight (?M fork)" by (simp add: d tip_entry_def)
    show "status d =
             (if Contains ?M ?c block then ''active''
              else if \<exists>a. ancestor ?M block a \<and> nStatus_FAILED (?M a) then ''invalid''
              else if nChainTx (?M block) = 0 then ''headers-only''
              else if IsValid_SCRIPTS (?M block) then ''valid-fork''
              else if IsValid_TREE (?M block) then ''valid-headers''
              else ''unknown'')" by (rule st)
  qed
qed

text \<open>
  The walk ends at a node of the active chain when the node has an ancestor there, so
  the loop returns a result when every tip has one.
\<close>

lemma FindFork_returns:
  assumes "ancestor M p f" and "Contains M c f"
  shows "\<exists>f'. FindFork M c (Some p) = Some (Some f')"
  using assms
proof (induction rule: ancestor.induct)
  case (self p)
  then show ?case by (simp add: FindFork.simps)
next
  case (parent p q a)
  show ?case
  proof (cases "Contains M c p")
    case True
    then show ?thesis by (simp add: FindFork.simps)
  next
    case False
    have "FindFork M c (Some p) = FindFork M c (Some q)"
      using False parent.hyps(1) by (subst FindFork.simps) simp
    then show ?thesis using parent.IH [OF parent.prems] by simp
  qed
qed

lemma tips_loop_returns:
  assumes "\<forall>b \<in> set ps. \<exists>f. ancestor M b f \<and> Contains M c f"
  shows "\<exists>res. tips_loop M c ps = Some (Inr res)"
  using assms
proof (induction ps)
  case Nil
  show ?case by simp
next
  case (Cons b ps)
  obtain f where "ancestor M b f" "Contains M c f" using Cons.prems by auto
  then obtain f' where "FindFork M c (Some b) = Some (Some f')"
    using FindFork_returns by blast
  moreover obtain res where "tips_loop M c ps = Some (Inr res)"
    using Cons by auto
  ultimately show ?case by simp
qed

text \<open>
  C5. With an active tip, the set of tips holds the active tip exactly once, whatever
  \<^verbatim>\<open>mapBlockIndex\<close> holds (children of the tip included). When every node of the set
  has an ancestor on the active chain, \<^verbatim>\<open>getchaintips\<close> returns a result. A result has
  one object per node of the set, in order, with the hash of the node; so where the
  nodes of the set have distinct hashes, exactly one object of the result has the hash
  of the active tip.
\<close>

theorem active_tip_once:
  assumes "Tip (chainActive nd) = Some tip"
  shows "count_list (setTips nd tip) tip = 1 \<and>
         (\<not> fHelp request \<and> params request = [] \<and>
          (\<forall>b \<in> set (setTips nd tip).
             \<exists>f. ancestor (mem nd) b f \<and> Contains (mem nd) (chainActive nd) f) \<longrightarrow>
          (\<exists>res. getchaintips nd request = Some (Inr res))) \<and>
         (\<forall>res. getchaintips nd request = Some (Inr res) \<longrightarrow>
            map tip_hash res = map (\<lambda>p. phashBlock (mem nd p)) (setTips nd tip) \<and>
            (inj_on (\<lambda>p. phashBlock (mem nd p)) (set (setTips nd tip)) \<longrightarrow>
               length (filter (\<lambda>d. tip_hash d = phashBlock (mem nd tip)) res) = 1))"
proof (intro conjI allI impI)
  show c: "count_list (setTips nd tip) tip = 1" by (rule count_setTips)
  {
    assume a: "\<not> fHelp request \<and> params request = [] \<and>
          (\<forall>b \<in> set (setTips nd tip).
             \<exists>f. ancestor (mem nd) b f \<and> Contains (mem nd) (chainActive nd) f)"
    then have "\<exists>res. tips_loop (mem nd) (chainActive nd) (setTips nd tip) = Some (Inr res)"
      by (intro tips_loop_returns) simp
    then show "\<exists>res. getchaintips nd request = Some (Inr res)"
      using a assms by (simp add: getchaintips_def)
  }
  fix res assume r: "getchaintips nd request = Some (Inr res)"
  let ?M = "mem nd" and ?c = "chainActive nd"
  let ?h = "\<lambda>p. phashBlock (mem nd p)"
  have tl: "tips_loop ?M ?c (setTips nd tip) = Some (Inr res)"
    using r assms by (auto simp: getchaintips_def split: if_splits)
  have la: "list_all2 (\<lambda>block d. \<exists>fork. FindFork ?M ?c (Some block) = Some (Some fork) \<and>
                              d = tip_entry ?M ?c block fork) (setTips nd tip) res"
    using tl by (rule tips_loop_entries)
  then have "list_all2 (\<lambda>block d. tip_hash d = ?h block) (setTips nd tip) res"
    by (rule list_all2_mono) (auto simp: tip_entry_def)
  then show m: "map tip_hash res = map ?h (setTips nd tip)"
    by (induction rule: list_all2_induct) simp_all
  assume inj: "inj_on ?h (set (setTips nd tip))"
  have "length (filter (\<lambda>d. tip_hash d = ?h tip) res) = length (filter (\<lambda>x. x = ?h tip) (map tip_hash res))"
    by (simp add: filter_map comp_def)
  also have "\<dots> = length (filter (\<lambda>p. ?h p = ?h tip) (setTips nd tip))"
    by (simp add: m filter_map comp_def)
  also have "filter (\<lambda>p. ?h p = ?h tip) (setTips nd tip) = filter (\<lambda>p. tip = p) (setTips nd tip)"
    using inj tip_in_setTips [of tip nd] by (intro filter_cong refl) (auto dest: inj_onD)
  also have "length \<dots> = count_list (setTips nd tip) tip"
    by (simp add: count_list_eq_length_filter)
  finally show "length (filter (\<lambda>d. tip_hash d = ?h tip) res) = 1"
    using c by simp
qed

lemma ex_forest_tips:
  "getchaintips (ex_forest [4, 0, 3, 1, 2]) \<lparr>fHelp = False, params = []\<rparr> =
     Some (Inr [\<lparr>tip_height = 3, tip_hash = 3, branchlen = 1, status = ''invalid''\<rparr>,
                \<lparr>tip_height = 2, tip_hash = 2, branchlen = 0, status = ''active''\<rparr>,
                \<lparr>tip_height = 2, tip_hash = 4, branchlen = 1, status = ''valid-fork''\<rparr>])"
  by code_simp

lemma ex_forest_chain: "chainActive (ex_forest ps) = [0, 1, 2]" "mem (ex_forest ps) = ex_index"
  by (simp_all add: ex_forest_def ex_node_def)

lemma ex_forest_setTips: "setTips (ex_forest [4, 0, 3, 1, 2]) 2 = [3, 2, 4]"
  by code_simp

lemma ex_forest_failed_tips:
  "getchaintips (ex_forest [4, 0, 3, 1, 2, 6]) \<lparr>fHelp = False, params = []\<rparr> =
     Some (Inr [\<lparr>tip_height = 4, tip_hash = 6, branchlen = 2, status = ''invalid''\<rparr>,
                \<lparr>tip_height = 2, tip_hash = 2, branchlen = 0, status = ''active''\<rparr>,
                \<lparr>tip_height = 2, tip_hash = 4, branchlen = 1, status = ''valid-fork''\<rparr>])"
  by code_simp

lemma ex_forest_consistent: "consistent_index (ex_forest [4, 0, 3, 1, 2, 6])"
  by (simp add: consistent_index_def ex_forest_def ex_node_def ex_blocks_def ex_index_def ex_mem_def
        Tip_def Height_def chain_at_def)

theorem chaintips_entries_witness:
  "\<exists>tip block fork.
     Tip (chainActive (ex_forest [4, 0, 3, 1, 2, 6])) = Some tip \<and>
     block \<in> set (setTips (ex_forest [4, 0, 3, 1, 2, 6]) tip) \<and>
     ancestor (mem (ex_forest [4, 0, 3, 1, 2, 6])) block fork \<and>
     Contains (mem (ex_forest [4, 0, 3, 1, 2, 6])) (chainActive (ex_forest [4, 0, 3, 1, 2, 6])) fork \<and>
     (\<forall>a. ancestor (mem (ex_forest [4, 0, 3, 1, 2, 6])) block a \<and>
          Contains (mem (ex_forest [4, 0, 3, 1, 2, 6])) (chainActive (ex_forest [4, 0, 3, 1, 2, 6])) a \<and>
          a \<noteq> fork \<longrightarrow>
          nHeight (mem (ex_forest [4, 0, 3, 1, 2, 6]) a) < nHeight (mem (ex_forest [4, 0, 3, 1, 2, 6]) fork)) \<and>
     4 = nHeight (mem (ex_forest [4, 0, 3, 1, 2, 6]) block) \<and>
     6 = phashBlock (mem (ex_forest [4, 0, 3, 1, 2, 6]) block) \<and>
     2 = nHeight (mem (ex_forest [4, 0, 3, 1, 2, 6]) block) - nHeight (mem (ex_forest [4, 0, 3, 1, 2, 6]) fork) \<and>
     ''invalid'' =
       (if Contains (mem (ex_forest [4, 0, 3, 1, 2, 6])) (chainActive (ex_forest [4, 0, 3, 1, 2, 6])) block then ''active''
        else if \<exists>a. ancestor (mem (ex_forest [4, 0, 3, 1, 2, 6])) block a \<and>
                    nStatus_FAILED (mem (ex_forest [4, 0, 3, 1, 2, 6]) a) then ''invalid''
        else if nChainTx (mem (ex_forest [4, 0, 3, 1, 2, 6]) block) = 0 then ''headers-only''
        else if IsValid_SCRIPTS (mem (ex_forest [4, 0, 3, 1, 2, 6]) block) then ''valid-fork''
        else if IsValid_TREE (mem (ex_forest [4, 0, 3, 1, 2, 6]) block) then ''valid-headers''
        else ''unknown'')"
  using chaintips_entries [OF ex_forest_failed_tips _ ex_forest_consistent,
      of "\<lparr>tip_height = 4, tip_hash = 6, branchlen = 2, status = ''invalid''\<rparr>"]
  by simp

theorem active_tip_once_witness:
  "count_list (setTips (ex_forest [4, 0, 3, 1, 2]) 2) 2 = 1 \<and>
   (\<exists>res. getchaintips (ex_forest [4, 0, 3, 1, 2]) \<lparr>fHelp = False, params = []\<rparr> = Some (Inr res)) \<and>
   length (filter (\<lambda>d. tip_hash d = 2)
     [\<lparr>tip_height = 3, tip_hash = 3, branchlen = 1, status = ''invalid''\<rparr>,
      \<lparr>tip_height = 2, tip_hash = 2, branchlen = 0, status = ''active''\<rparr>,
      \<lparr>tip_height = 2, tip_hash = 4, branchlen = 1, status = ''valid-fork''\<rparr>]) = 1"
proof -
  let ?nd = "ex_forest [4, 0, 3, 1, 2]"
  have t: "Tip (chainActive ?nd) = Some 2"
    by (simp add: ex_forest_chain Tip_def Height_def chain_at_def)
  have inj: "inj_on (\<lambda>p. phashBlock (mem ?nd p)) (set (setTips ?nd 2))"
    by (simp only: ex_forest_setTips) (simp add: ex_forest_chain ex_index_def ex_mem_def)
  have h: "phashBlock (mem ?nd 2) = 2"
    by (simp add: ex_forest_chain ex_index_def ex_mem_def)
  have c1: "Contains ex_index [0, 1, 2] 1" and c2: "Contains ex_index [0, 1, 2] 2"
    by (simp_all add: Contains_def chain_at_def ex_index_def ex_mem_def)
  have a3: "ancestor ex_index 3 2"
    by (rule ancestor.parent [of _ _ 2]) (simp_all add: ex_index_def ancestor.self)
  have a4: "ancestor ex_index 4 1"
    by (rule ancestor.parent [of _ _ 1]) (simp_all add: ex_index_def ancestor.self)
  have conn: "\<forall>b \<in> set (setTips ?nd 2). \<exists>f. ancestor (mem ?nd) b f \<and> Contains (mem ?nd) (chainActive ?nd) f"
    using c1 c2 a3 a4 ancestor.self [of ex_index 2]
    by (simp only: ex_forest_setTips ex_forest_chain) auto
  from active_tip_once [OF t, of "\<lparr>fHelp = False, params = []\<rparr>"] ex_forest_tips inj h conn
  show ?thesis by simp
qed

subsection \<open>Waiting for a block height\<close>

lemma fold_keeps_tip:
  "\<forall>a \<in> set as. keeps_tip M (latestblock s) a \<Longrightarrow> latestblock (fold (act M) as s) = latestblock s"
proof (induction as arbitrary: s)
  case Nil
  show ?case by simp
next
  case (Cons a as)
  have 1: "latestblock (act M a s) = latestblock s"
    using Cons.prems by (cases a) (auto simp: keeps_tip_def RPCNotifyBlockChange_def split: option.splits)
  then show ?case using Cons by simp
qed

lemma cv_wait_for_unchanged:
  assumes "\<forall>e \<in> set pre. \<forall>a \<in> set (actions e). keeps_tip M (latestblock s) a"
    and "\<forall>a \<in> set (actions e). keeps_tip M (latestblock s) a" and "wake e = timeout"
  shows "\<exists>s' es'. cv_wait_for M pred (pre @ e # rest) s = Some (s', es') \<and> latestblock s' = latestblock s"
  using assms(1,2)
proof (induction pre arbitrary: s)
  case Nil
  then show ?case using assms(3) by (simp add: fold_keeps_tip)
next
  case (Cons x pre)
  let ?s1 = "fold (act M) (actions x) s"
  have l: "latestblock ?s1 = latestblock s"
    using Cons.prems(1) by (simp add: fold_keeps_tip)
  have "\<exists>s' es'. cv_wait_for M pred (pre @ e # rest) ?s1 = Some (s', es') \<and> latestblock s' = latestblock ?s1"
    using Cons.prems by (intro Cons.IH) (simp_all add: l)
  then show ?case using l by (auto simp: fold_keeps_tip)
qed

text \<open>
  C8. First part: when the stored height is at least the target, the call returns the
  stored snapshot without blocking (no episode is used), with no timeout given, with the
  timeout 0 and with any other timeout. Second part: with a timeout other than 0, when
  the deadline passes in some episode and no action up to then changes \<^verbatim>\<open>latestblock\<close>,
  the call returns, and returns the snapshot stored at the call.
\<close>

theorem waitforblockheight_returns:
  "(\<not> fHelp request \<and> (params request = [VNUM h] \<or> params request = [VNUM h, VNUM tmo]) \<and>
      block_height (latestblock s) \<ge> h \<longrightarrow>
      waitforblockheight M request es s = Some (Inr (latestblock s), es))
   \<and> (\<not> fHelp request \<and> params request = [VNUM h, VNUM tmo] \<and> tmo \<noteq> 0 \<and>
      es = pre @ e # rest \<and> wake e = timeout \<and>
      (\<forall>x \<in> set (pre @ [e]). \<forall>a \<in> set (actions x). keeps_tip M (latestblock s) a) \<longrightarrow>
      (\<exists>es'. waitforblockheight M request es s = Some (Inr (latestblock s), es')))"
proof (intro conjI impI)
  assume a: "\<not> fHelp request \<and> (params request = [VNUM h] \<or> params request = [VNUM h, VNUM tmo]) \<and>
      block_height (latestblock s) \<ge> h"
  have 1: "cv_wait M (\<lambda>s. block_height (latestblock s) \<ge> h \<or> \<not> IsRPCRunning s) es s = Some (s, es)"
    using a by (cases es) simp_all
  have 2: "cv_wait_for M (\<lambda>s. block_height (latestblock s) \<ge> h \<or> \<not> IsRPCRunning s) es s = Some (s, es)"
    using a by (cases es) simp_all
  show "waitforblockheight M request es s = Some (Inr (latestblock s), es)"
    using a 1 2 by (auto simp: waitforblockheight_def get_int_def Let_def)
next
  assume a: "\<not> fHelp request \<and> params request = [VNUM h, VNUM tmo] \<and> tmo \<noteq> 0 \<and>
      es = pre @ e # rest \<and> wake e = timeout \<and>
      (\<forall>x \<in> set (pre @ [e]). \<forall>a \<in> set (actions x). keeps_tip M (latestblock s) a)"
  have "\<exists>s' es'. cv_wait_for M (\<lambda>s. block_height (latestblock s) \<ge> h \<or> \<not> IsRPCRunning s) (pre @ e # rest) s
           = Some (s', es') \<and> latestblock s' = latestblock s"
    using a by (intro cv_wait_for_unchanged) simp_all
  then show "\<exists>es'. waitforblockheight M request es s = Some (Inr (latestblock s), es')"
    using a by (auto simp: waitforblockheight_def get_int_def Let_def)
qed

theorem waitforblockheight_returns_witness:
  "waitforblockheight ex_mem \<lparr>fHelp = False, params = [VNUM 1]\<rparr> [] ex_shared =
     Some (Inr (latestblock ex_shared), [])
   \<and> (\<exists>es'. waitforblockheight ex_mem \<lparr>fHelp = False, params = [VNUM 5, VNUM 1000]\<rparr>
              [\<lparr>actions = [Notify False None], wake = no_timeout\<rparr>, \<lparr>actions = [], wake = timeout\<rparr>]
              ex_shared = Some (Inr (latestblock ex_shared), es'))"
proof
  show "waitforblockheight ex_mem \<lparr>fHelp = False, params = [VNUM 1]\<rparr> [] ex_shared =
          Some (Inr (latestblock ex_shared), [])"
    using waitforblockheight_returns
      [of "\<lparr>fHelp = False, params = [VNUM 1]\<rparr>" 1 0 ex_shared ex_mem "[]"]
    by (simp add: ex_shared_def)
  show "\<exists>es'. waitforblockheight ex_mem \<lparr>fHelp = False, params = [VNUM 5, VNUM 1000]\<rparr>
              [\<lparr>actions = [Notify False None], wake = no_timeout\<rparr>, \<lparr>actions = [], wake = timeout\<rparr>]
              ex_shared = Some (Inr (latestblock ex_shared), es')"
    using waitforblockheight_returns
      [of "\<lparr>fHelp = False, params = [VNUM 5, VNUM 1000]\<rparr>" 5 1000 ex_shared ex_mem
          "[\<lparr>actions = [Notify False None], wake = no_timeout\<rparr>, \<lparr>actions = [], wake = timeout\<rparr>]"
          "[\<lparr>actions = [Notify False None], wake = no_timeout\<rparr>]" "\<lparr>actions = [], wake = timeout\<rparr>" "[]"]
    by (simp add: keeps_tip_def)
qed

end
